theory Spec2Isabelle
  imports Complex_Main "HOL-Library.Word" "HOL-Library.AList"
begin

section \<open>Python values used by the bridge\<close>

text \<open>
  A Python \<open>str\<close> is the list of its code points, a \<open>bytes\<close> object the list of its
  bytes. Topic and table names are plain ASCII configuration strings.
\<close>

type_synonym pystr = "nat list"
type_synonym pybytes = "8 word list"

definition str :: "string \<Rightarrow> pystr" where
  "str cs = map of_char cs"

text \<open>
  The exceptions that can travel through \<open>consume_and_load\<close>. \<open>KeyboardInterrupt\<close>
  derives from \<open>BaseException\<close> only, so an \<open>except Exception\<close> clause does not catch it;
  every other one derives from \<open>Exception\<close>.
\<close>

datatype py_exception =
    KeyboardInterrupt
  | UnicodeDecodeError
  | AttributeError
  | KeyError
  | OtherException

fun is_Exception :: "py_exception \<Rightarrow> bool" where
  "is_Exception KeyboardInterrupt = False"
| "is_Exception _ = True"

text \<open>
  The objects \<open>json.loads\<close> can return, and the ways it can fail: with
  \<open>JSONDecodeError\<close> on text that is not JSON, or with another \<open>Exception\<close>
  (\<open>RecursionError\<close> on deep nesting, \<open>ValueError\<close> on an over-long integer literal).
\<close>

datatype loads_error = JSONDecodeError | OtherLoadsError

datatype pyfloat = Finite rat | PosInf | NegInf | NaN

datatype json =
    JNull
  | JBool bool
  | JInt int
  | JFloat pyfloat
  | JString pystr
  | JArray "json list"
  | JObject "(pystr \<times> json) list"

text \<open>
  \<open>x == True\<close> for a value \<open>x\<close> that \<open>dict.get\<close> returned (\<open>None\<close> when the key is
  absent). \<open>bool\<close> is a subclass of \<open>int\<close> in Python, so \<open>1 == True\<close> and \<open>1.0 == True\<close>
  hold; a string, a list, a dict and \<open>None\<close> are never equal to \<open>True\<close>.
\<close>

fun eq_True :: "json option \<Rightarrow> bool" where
  "eq_True (Some (JBool b)) = b"
| "eq_True (Some (JInt i)) = (i = 1)"
| "eq_True (Some (JFloat f)) = (f = Finite 1)"
| "eq_True _ = False"

text \<open>
  \<open>str.strip()\<close> removes leading and trailing white space, which for a \<open>str\<close> is the set
  of code points for which \<open>str.isspace\<close> holds.
\<close>

definition is_space :: "nat \<Rightarrow> bool" where
  "is_space c \<longleftrightarrow>
     (9 \<le> c \<and> c \<le> 13) \<or> (28 \<le> c \<and> c \<le> 32) \<or> c = 133 \<or> c = 160 \<or> c = 5760 \<or>
     (8192 \<le> c \<and> c \<le> 8202) \<or> c = 8232 \<or> c = 8233 \<or> c = 8239 \<or> c = 8287 \<or> c = 12288"

definition strip :: "pystr \<Rightarrow> pystr" where
  "strip s = rev (dropWhile is_space (rev (dropWhile is_space s)))"

text \<open>\<open>int(x)\<close> of a float truncates towards zero.\<close>

definition py_int :: "rat \<Rightarrow> int" where
  "py_int x = (if 0 \<le> x then \<lfloor>x\<rfloor> else \<lceil>x\<rceil>)"

text \<open>
  The two library functions the message path calls. They are not part of the repository,
  so the model takes them as parameters: \<open>decode_utf8 b\<close> is \<open>b.decode('utf-8')\<close>
  (\<open>None\<close> when it raises \<open>UnicodeDecodeError\<close>), \<open>json_loads s\<close> is \<open>json.loads(s)\<close>
  (\<open>Inl e\<close> when it raises).
\<close>

record pylib =
  decode_utf8 :: "pybytes \<Rightarrow> pystr option"
  json_loads :: "pystr \<Rightarrow> loads_error + json"

section \<open>Broker, sink and clock\<close>

datatype kafka_error = PARTITION_EOF | OTHER_ERROR

record message =
  topic :: string
  error :: "kafka_error option"
  val :: "pybytes option"
  offset :: int
  partition :: int

datatype poll_result =
    PollNone
  | PollMsg message
  | PollRaise py_exception

text \<open>
  Everything outside the process: what the \<open>i\<close>-th call of \<open>consumer.poll\<close> returns (or
  raises; an operator interrupt arrives as \<open>KeyboardInterrupt\<close>), what \<open>time.time()\<close>
  returns during the \<open>i\<close>-th iteration and before the loop, and whether the \<open>n\<close>-th call
  of \<open>clickhouse_client.insert\<close> succeeds.
\<close>

record world =
  poll :: "nat \<Rightarrow> poll_result"
  clock :: "nat \<Rightarrow> rat"
  start_clock :: rat
  insert_ok :: "nat \<Rightarrow> bool"

record data_row =
  raw_data :: pystr
  kafka_timestamp :: int
  kafka_offset :: int
  kafka_partition :: int

record insert_call =
  target :: string
  rows :: "data_row list"
  succeeded :: bool

datatype log_level = DEBUG | INFO | WARNING | ERROR

datatype log_msg =
    Starting
  | Subscribing "string list"
  | ModeBanner bool
  | TimeoutReached
  | EndOfPartition string
  | KafkaErrorMsg
  | UnknownTopic string
  | SkippingDelete string
  | InvalidJSON pystr
  | Progress int
  | MaxMessagesReached
  | ProcessingError py_exception
  | Inserted nat string
  | InsertError string
  | Processed int
  | ConsumeError py_exception

section \<open>The bridge\<close>

definition topic_table_mapping :: "(string \<times> string) list" where
  "topic_table_mapping =
    [(''mongo.ecom.ecom.customers'', ''mongo_ecom_customers''),
     (''mongo.ecom.ecom.products'', ''mongo_ecom_products''),
     (''mongo.ecom.ecom.orders'', ''mongo_ecom_orders'')]"

definition batch_size :: nat where
  "batch_size = 100"

text \<open>
  The local variables of \<open>consume_and_load\<close> together with what the run has done so far:
  the insert calls the sink has received, the log, and the number of polls made.
\<close>

record run_state =
  message_count :: int
  batch_data :: "(string \<times> data_row list) list"
  inserts :: "insert_call list"
  logs :: "(log_level \<times> log_msg) list"
  polled :: nat

record args =
  max_messages :: "int option"
  timeout_seconds :: "rat option"
  realtime :: bool

definition logger :: "log_level \<Rightarrow> log_msg \<Rightarrow> run_state \<Rightarrow> run_state" where
  "logger lv m s = s\<lparr>logs := logs s @ [(lv, m)]\<rparr>"

text \<open>
  \<open>_insert_batch\<close>: one insert call; an exception of the client is caught and logged, so
  the method returns normally either way.
\<close>

definition insert_batch :: "world \<Rightarrow> string \<Rightarrow> data_row list \<Rightarrow> run_state \<Rightarrow> run_state" where
  "insert_batch w table_name data s =
     (let ok = insert_ok w (length (inserts s));
          s1 = s\<lparr>inserts := inserts s @ [\<lparr>target = table_name, rows = data, succeeded = ok\<rparr>]\<rparr>
      in if ok then logger INFO (Inserted (length data) table_name) s1
         else logger ERROR (InsertError table_name) s1)"

text \<open>
  The record filter of the loop: the empty test, then \<open>json.loads\<close> and the \<open>__deleted\<close>
  test inside the inner \<open>try\<close>, whose handler catches \<open>JSONDecodeError\<close> only. Calling
  \<open>.get\<close> on a parsed value that is not a dict raises \<open>AttributeError\<close>.
\<close>

datatype drop_reason = EmptyPayload | DeleteEvent | InvalidPayload

datatype filter_result = Pass | Skip drop_reason | Fail py_exception

definition record_filter :: "pylib \<Rightarrow> pystr \<Rightarrow> filter_result" where
  "record_filter lib message_value =
     (if message_value = [] \<or> strip message_value = [] then Skip EmptyPayload
      else case json_loads lib message_value of
             Inl JSONDecodeError \<Rightarrow> Skip InvalidPayload
           | Inl OtherLoadsError \<Rightarrow> Fail OtherException
           | Inr json_data \<Rightarrow>
               (case json_data of
                  JObject kvs \<Rightarrow>
                    (if eq_True (map_of kvs (str ''__deleted'')) then Skip DeleteEvent else Pass)
                | _ \<Rightarrow> Fail AttributeError))"

datatype flow = Continue run_state | Break run_state | Raise py_exception run_state

text \<open>\<open>msg.value().decode('utf-8') if msg.value() else ''\<close>\<close>

definition get_message_value :: "pylib \<Rightarrow> message \<Rightarrow> pystr option" where
  "get_message_value lib msg =
     (case val msg of
        None \<Rightarrow> Some []
      | Some b \<Rightarrow> (if b = [] then Some [] else decode_utf8 lib b))"

text \<open>
  The first half of the per-message \<open>try\<close>: resolve the table, decode the payload, run
  the record filter. \<open>Accept table_name message_value\<close> means the second half runs.
\<close>

datatype verdict =
    Accept string pystr
  | NoTable
  | Filtered drop_reason pystr
  | Failed py_exception

definition accept :: "pylib \<Rightarrow> message \<Rightarrow> verdict" where
  "accept lib msg =
     (case map_of topic_table_mapping (topic msg) of
        None \<Rightarrow> NoTable
      | Some table_name \<Rightarrow>
          if table_name = [] then NoTable
          else
            (case get_message_value lib msg of
               None \<Rightarrow> Failed UnicodeDecodeError
             | Some message_value \<Rightarrow>
                 (case record_filter lib message_value of
                    Skip r \<Rightarrow> Filtered r message_value
                  | Fail e \<Rightarrow> Failed e
                  | Pass \<Rightarrow> Accept table_name message_value)))"

text \<open>
  \<open>not realtime and timeout_seconds and time.time() - start_time > timeout_seconds\<close> and
  \<open>not realtime and max_messages and message_count >= max_messages\<close>: \<open>None\<close> and \<open>0\<close>
  are falsy.
\<close>

definition timed_out :: "world \<Rightarrow> args \<Rightarrow> nat \<Rightarrow> bool" where
  "timed_out w a i \<longleftrightarrow>
     \<not> realtime a \<and>
     (case timeout_seconds a of
        None \<Rightarrow> False
      | Some t \<Rightarrow> t \<noteq> 0 \<and> clock w i - start_clock w > t)"

definition limit_reached :: "args \<Rightarrow> int \<Rightarrow> bool" where
  "limit_reached a count \<longleftrightarrow>
     \<not> realtime a \<and>
     (case max_messages a of
        None \<Rightarrow> False
      | Some n \<Rightarrow> n \<noteq> 0 \<and> count \<ge> n)"

text \<open>
  The second half of the \<open>try\<close>: append the row to the table's buffer, count it, flush a
  full buffer and replace it by an empty one, report, test the message limit.
\<close>

definition store_row :: "world \<Rightarrow> args \<Rightarrow> string \<Rightarrow> data_row \<Rightarrow> run_state \<Rightarrow> flow" where
  "store_row w a table_name row s =
     (case map_of (batch_data s) table_name of
        None \<Rightarrow> Raise KeyError s
      | Some buf \<Rightarrow>
          (let s1 = s\<lparr>batch_data := AList.update table_name (buf @ [row]) (batch_data s)\<rparr>;
               s2 = s1\<lparr>message_count := message_count s1 + 1\<rparr>;
               s3 = (if length (buf @ [row]) \<ge> batch_size
                     then (let s' = insert_batch w table_name (buf @ [row]) s2
                           in s'\<lparr>batch_data := AList.update table_name [] (batch_data s')\<rparr>)
                     else s2);
               s4 = (if realtime a \<and> message_count s3 mod 100 = 0 \<and> message_count s3 > 0
                     then logger INFO (Progress (message_count s3)) s3 else s3)
           in if limit_reached a (message_count s4)
              then Break (logger INFO MaxMessagesReached s4)
              else Continue s4))"

text \<open>The body of the per-message \<open>try\<close>, for the message polled in iteration \<open>i\<close>.\<close>

definition process_message :: "pylib \<Rightarrow> world \<Rightarrow> args \<Rightarrow> nat \<Rightarrow> message \<Rightarrow> run_state \<Rightarrow> flow" where
  "process_message lib w a i msg s =
     (case accept lib msg of
        NoTable \<Rightarrow> Continue (logger WARNING (UnknownTopic (topic msg)) s)
      | Failed e \<Rightarrow> Raise e s
      | Filtered EmptyPayload message_value \<Rightarrow> Continue s
      | Filtered DeleteEvent message_value \<Rightarrow>
          Continue (logger DEBUG (SkippingDelete (topic msg)) s)
      | Filtered InvalidPayload message_value \<Rightarrow>
          Continue (logger WARNING (InvalidJSON (take 100 message_value)) s)
      | Accept table_name message_value \<Rightarrow>
          store_row w a table_name
            \<lparr>raw_data = message_value, kafka_timestamp = py_int (clock w i),
             kafka_offset = offset msg, kafka_partition = partition msg\<rparr> s)"

text \<open>
  One iteration of \<open>while True\<close>: poll, the timeout test after an empty poll, broker
  error events, then the \<open>try\<close> whose handler logs any \<open>Exception\<close> and continues.
\<close>

definition loop_iteration :: "pylib \<Rightarrow> world \<Rightarrow> args \<Rightarrow> run_state \<Rightarrow> flow" where
  "loop_iteration lib w a s =
     (let i = polled s; s0 = s\<lparr>polled := Suc i\<rparr> in
      case poll w i of
        PollRaise e \<Rightarrow> Raise e s0
      | PollNone \<Rightarrow>
          if timed_out w a i then Break (logger INFO TimeoutReached s0) else Continue s0
      | PollMsg msg \<Rightarrow>
          (case error msg of
             Some PARTITION_EOF \<Rightarrow> Continue (logger INFO (EndOfPartition (topic msg)) s0)
           | Some OTHER_ERROR \<Rightarrow> Continue (logger ERROR KafkaErrorMsg s0)
           | None \<Rightarrow>
               (case process_message lib w a i msg s0 of
                  Raise e s' \<Rightarrow>
                    if is_Exception e then Continue (logger ERROR (ProcessingError e) s')
                    else Raise e s'
                | r \<Rightarrow> r)))"

datatype loop_exit = LoopBreak run_state | LoopRaise py_exception run_state

partial_function (option) poll_loop :: "pylib \<Rightarrow> world \<Rightarrow> args \<Rightarrow> run_state \<Rightarrow> loop_exit option" where
  "poll_loop lib w a s =
     (case loop_iteration lib w a s of
        Continue s' \<Rightarrow> poll_loop lib w a s'
      | Break s' \<Rightarrow> Some (LoopBreak s')
      | Raise e s' \<Rightarrow> Some (LoopRaise e s'))"

text \<open>\<open>for table_name, data in batch_data.items(): if data: self._insert_batch(...)\<close>\<close>

fun drain :: "world \<Rightarrow> (string \<times> data_row list) list \<Rightarrow> run_state \<Rightarrow> run_state" where
  "drain w [] s = s"
| "drain w ((table_name, data) # rest) s =
     drain w rest (if data \<noteq> [] then insert_batch w table_name data s else s)"

text \<open>
  The state at the first poll. \<open>{table: [] for table in self.topic_table_mapping.values()}\<close>
  inserts the tables in the order of the mapping, a repeated table keeping its first place.
\<close>

definition initial_state :: "args \<Rightarrow> run_state" where
  "initial_state a =
     logger INFO (ModeBanner (realtime a))
       (logger INFO (Subscribing (map fst topic_table_mapping))
         (logger INFO Starting
           \<lparr>message_count = 0,
            batch_data = foldl (\<lambda>d table. AList.update table [] d) []
                           (map snd topic_table_mapping),
            inserts = [], logs = [], polled = 0\<rparr>))"

datatype call_result = Returned run_state | Propagated py_exception run_state

text \<open>
  \<open>consume_and_load\<close>: \<open>None\<close> when the loop never ends. The outer handler catches any
  \<open>Exception\<close> that leaves the loop, after which the method returns without reaching the
  final flush; a \<open>KeyboardInterrupt\<close> leaves the method.
\<close>

definition consume_and_load :: "pylib \<Rightarrow> world \<Rightarrow> args \<Rightarrow> call_result option" where
  "consume_and_load lib w a =
     (case poll_loop lib w a (initial_state a) of
        None \<Rightarrow> None
      | Some (LoopBreak s) \<Rightarrow>
          Some (Returned (logger INFO (Processed (message_count s)) (drain w (batch_data s) s)))
      | Some (LoopRaise e s) \<Rightarrow>
          Some (if is_Exception e then Returned (logger ERROR (ConsumeError e) s)
                else Propagated e s))"


section \<open>The command line entry point\<close>

text \<open>
  What \<open>main\<close> meets at start-up: the command line, whether the constructor's
  \<open>get_client\<close> returns, whether \<open>SELECT 1\<close> and \<open>list_topics\<close> succeed, and whether the
  \<open>i\<close>-th \<open>CREATE TABLE\<close> command succeeds.
\<close>

record startup =
  argv :: "string list"
  client_ok :: bool
  sink_reachable :: bool
  broker_reachable :: bool
  create_ok :: "nat \<Rightarrow> bool"

text \<open>\<open>test_connections\<close>: any exception of either test is caught and gives \<open>False\<close>.\<close>

definition test_connections :: "startup \<Rightarrow> bool" where
  "test_connections st \<longleftrightarrow> sink_reachable st \<and> broker_reachable st"

text \<open>
  \<open>create_tables\<close>: three commands, each in its own \<open>try\<close>; a failure is logged and the
  loop goes on. The result lists which commands succeeded; the method itself returns
  nothing.
\<close>

definition create_tables :: "startup \<Rightarrow> bool list" where
  "create_tables st = map (create_ok st) [0, 1, 2]"

datatype action =
    TestConnections bool
  | CreateTables "bool list"
  | ClearTables
  | ConsumeAndLoad args call_result
  | ShowStats

text \<open>
  The interpreter ends with status 0 when \<open>main\<close> returns and with a non-zero status when
  an exception leaves it.
\<close>

datatype exit_status = ExitZero | ExitNonZero

record process_result =
  status :: exit_status
  actions :: "action list"

datatype run_mode = RealtimeMode | BatchMode | HelpMode

definition parse_mode :: "string list \<Rightarrow> run_mode \<times> bool" where
  "parse_mode av =
     (case av of
        _ # a1 # _ \<Rightarrow>
          if a1 = ''--batch'' then (BatchMode, False)
          else if a1 = ''--realtime'' then (RealtimeMode, False)
          else if a1 = ''--reset'' then (BatchMode, True)
          else if a1 = ''--help'' \<or> a1 = ''-h'' then (HelpMode, False)
          else (RealtimeMode, False)
      | _ \<Rightarrow> (RealtimeMode, False))"

text \<open>The arguments \<open>main\<close> passes to \<open>consume_and_load\<close> in each mode.\<close>

definition mode_args :: "run_mode \<Rightarrow> bool \<Rightarrow> args" where
  "mode_args mode reset_offset =
     (if mode = RealtimeMode
      then \<lparr>max_messages = None, timeout_seconds = None, realtime = True\<rparr>
      else if reset_offset
      then \<lparr>max_messages = Some 5000, timeout_seconds = Some 120, realtime = False\<rparr>
      else \<lparr>max_messages = Some 3500, timeout_seconds = Some 60, realtime = False\<rparr>)"

text \<open>
  \<open>main\<close>: the constructor, the command line, the connection test, table creation, the
  optional reset, the run, the statistics. Only the real-time call sits in a
  \<open>try ... except KeyboardInterrupt\<close>.
\<close>

definition main :: "pylib \<Rightarrow> world \<Rightarrow> startup \<Rightarrow> process_result option" where
  "main lib w st =
     (if \<not> client_ok st then Some \<lparr>status = ExitNonZero, actions = []\<rparr>
      else
        (case parse_mode (argv st) of (mode, reset_offset) \<Rightarrow>
          if mode = HelpMode then Some \<lparr>status = ExitZero, actions = []\<rparr>
          else if \<not> test_connections st
          then Some \<lparr>status = ExitZero, actions = [TestConnections False]\<rparr>
          else
            (let before = [TestConnections True, CreateTables (create_tables st)]
                          @ (if reset_offset then [ClearTables] else []);
                 a = mode_args mode reset_offset
             in case consume_and_load lib w a of
                  None \<Rightarrow> None
                | Some (Returned s) \<Rightarrow>
                    Some \<lparr>status = ExitZero,
                          actions = before @ [ConsumeAndLoad a (Returned s), ShowStats]\<rparr>
                | Some (Propagated e s) \<Rightarrow>
                    if mode = RealtimeMode \<and> e = KeyboardInterrupt
                    then Some \<lparr>status = ExitZero,
                               actions = before @ [ConsumeAndLoad a (Propagated e s), ShowStats]\<rparr>
                    else Some \<lparr>status = ExitNonZero,
                               actions = before @ [ConsumeAndLoad a (Propagated e s)]\<rparr>)))"

section \<open>Running the loop step by step\<close>

text \<open>
  \<open>iterate n\<close> runs at most \<open>n\<close> iterations of the loop: \<open>Continue s\<close> is the state at the
  start of the next poll, \<open>Break\<close> and \<open>Raise\<close> are the loop's exits.
\<close>

fun iterate :: "pylib \<Rightarrow> world \<Rightarrow> args \<Rightarrow> nat \<Rightarrow> run_state \<Rightarrow> flow" where
  "iterate lib w a 0 s = Continue s"
| "iterate lib w a (Suc n) s =
     (case loop_iteration lib w a s of
        Continue s' \<Rightarrow> iterate lib w a n s'
      | r \<Rightarrow> r)"

fun flow_state :: "flow \<Rightarrow> run_state" where
  "flow_state (Continue s) = s"
| "flow_state (Break s) = s"
| "flow_state (Raise e s) = s"


fun call_state :: "call_result \<Rightarrow> run_state" where
  "call_state (Returned s) = s"
| "call_state (Propagated e s) = s"

text \<open>
  Measures of a run: the rows waiting in the buffers, the rows handed to the sink in
  insert calls, and the rows of the calls that succeeded.
\<close>

definition buffered :: "run_state \<Rightarrow> nat" where
  "buffered s = sum_list (map (\<lambda>e. length (snd e)) (batch_data s))"

definition sent :: "run_state \<Rightarrow> nat" where
  "sent s = sum_list (map (\<lambda>c. length (rows c)) (inserts s))"

definition stored :: "run_state \<Rightarrow> nat" where
  "stored s = sum_list (map (\<lambda>c. length (rows c)) (filter succeeded (inserts s)))"

text \<open>
  A poll result is kept when it is a regular message that the first half of the \<open>try\<close>
  accepts; \<open>kept_before lib w n\<close> counts the kept ones among the first \<open>n\<close> polls.
\<close>

definition kept :: "pylib \<Rightarrow> poll_result \<Rightarrow> bool" where
  "kept lib r =
     (case r of
        PollMsg m \<Rightarrow>
          error m = None \<and> (case accept lib m of Accept t v \<Rightarrow> True | _ \<Rightarrow> False)
      | _ \<Rightarrow> False)"

definition kept_before :: "pylib \<Rightarrow> world \<Rightarrow> nat \<Rightarrow> nat" where
  "kept_before lib w n = length (filter (\<lambda>i. kept lib (poll w i)) [0..<n])"

section \<open>Sample inputs\<close>

text \<open>
  Concrete stand-ins for the two library functions, used only to run the model on the
  examples below. On every input of the examples they return what Python returns:
  \<open>ascii_decode\<close> decodes bytes below \<open>0x80\<close> to themselves and rejects the rest (the
  examples use the byte \<open>0xFF\<close>, which no UTF-8 text contains); \<open>sample_loads\<close> lists the
  values of \<open>json.loads\<close> on the payloads used and rejects everything else.
\<close>

definition encode_ascii :: "string \<Rightarrow> pybytes" where
  "encode_ascii cs = map of_char cs"

definition ascii_decode :: "pybytes \<Rightarrow> pystr option" where
  "ascii_decode b = (if list_all (\<lambda>x. x < 0x80) b then Some (map unat b) else None)"

definition sample_loads :: "pystr \<Rightarrow> loads_error + json" where
  \<open>sample_loads s =
     (if s = str ''{"id": 7}'' then Inr (JObject [(str ''id'', JInt 7)])
      else if s = str ''{"id": 7, "__deleted": true}''
        then Inr (JObject [(str ''id'', JInt 7), (str ''__deleted'', JBool True)])
      else if s = str ''{"id": 7, "__deleted": 1}''
        then Inr (JObject [(str ''id'', JInt 7), (str ''__deleted'', JInt 1)])
      else if s = str ''[]'' then Inr (JArray [])
      else Inl JSONDecodeError)\<close>

definition sample_lib :: pylib where
  "sample_lib = \<lparr>decode_utf8 = ascii_decode, json_loads = sample_loads\<rparr>"

definition customer_msg :: "pybytes \<Rightarrow> message" where
  "customer_msg payload =
     \<lparr>topic = ''mongo.ecom.ecom.customers'', error = None,
      val = Some payload, offset = 0, partition = 0\<rparr>"

text \<open>A broker that delivers the same message at every poll.\<close>

definition always :: "message \<Rightarrow> world" where
  "always m = \<lparr>poll = (\<lambda>i. PollMsg m), clock = (\<lambda>i. 0), start_clock = 0,
               insert_ok = (\<lambda>n. True)\<rparr>"

definition realtime_args :: args where
  "realtime_args = \<lparr>max_messages = None, timeout_seconds = None, realtime = True\<rparr>"

definition batch_args :: "int \<Rightarrow> args" where
  "batch_args n = \<lparr>max_messages = Some n, timeout_seconds = Some 60, realtime = False\<rparr>"

definition live :: message where
  \<open>live = customer_msg (encode_ascii ''{"id": 7}'')\<close>

definition bad_array :: message where
  "bad_array = customer_msg (encode_ascii ''[]'')"

definition numeric_tombstone :: message where
  \<open>numeric_tombstone = customer_msg (encode_ascii ''{"id": 7, "__deleted": 1}'')\<close>

definition undecodable :: message where
  "undecodable = customer_msg [0xFF]"

definition sample_row :: data_row where
  \<open>sample_row = \<lparr>raw_data = str ''{"id": 7}'', kafka_timestamp = 0, kafka_offset = 0,
                  kafka_partition = 0\<rparr>\<close>

definition nearly_full :: run_state where
  "nearly_full =
     \<lparr>message_count = 99,
      batch_data = [(''mongo_ecom_customers'', replicate 99 sample_row),
                    (''mongo_ecom_products'', []), (''mongo_ecom_orders'', [])],
      inserts = [], logs = [], polled = 99\<rparr>"

definition sink_down :: "message \<Rightarrow> world" where
  "sink_down m = \<lparr>poll = (\<lambda>i. PollMsg m), clock = (\<lambda>i. 0), start_clock = 0,
                  insert_ok = (\<lambda>n. n \<noteq> 0)\<rparr>"

text \<open>
  A broker that delivers one regular message and is then interrupted by the operator, and
  one that never delivers anything while the clock stands past every time limit.
\<close>

definition interrupted :: world where
  "interrupted =
     \<lparr>poll = (\<lambda>i. if i = 0 then PollMsg live else PollRaise KeyboardInterrupt),
      clock = (\<lambda>i. 0), start_clock = 0, insert_ok = (\<lambda>n. True)\<rparr>"

definition quiet :: world where
  "quiet = \<lparr>poll = (\<lambda>i. PollNone), clock = (\<lambda>i. 1000), start_clock = 0,
            insert_ok = (\<lambda>n. True)\<rparr>"

text \<open>
  A broker that delivers \<open>k\<close> regular messages and is then interrupted by the operator,
  and one that delivers \<open>k\<close> regular messages and then nothing, one poll a second.
\<close>

definition live_then_interrupt :: "nat \<Rightarrow> world" where
  "live_then_interrupt k =
     \<lparr>poll = (\<lambda>i. if i < k then PollMsg live else PollRaise KeyboardInterrupt),
      clock = (\<lambda>i. 0), start_clock = 0, insert_ok = (\<lambda>n. True)\<rparr>"

definition live_then_silence :: "nat \<Rightarrow> world" where
  "live_then_silence k =
     \<lparr>poll = (\<lambda>i. if i < k then PollMsg live else PollNone),
      clock = (\<lambda>i. of_nat i), start_clock = 0, insert_ok = (\<lambda>n. True)\<rparr>"

text \<open>Start-up situations: everything works; the broker is unreachable; every
  \<open>CREATE TABLE\<close> fails.\<close>

definition healthy :: "string list \<Rightarrow> startup" where
  "healthy av = \<lparr>argv = av, client_ok = True, sink_reachable = True,
                 broker_reachable = True, create_ok = (\<lambda>i. True)\<rparr>"

definition broker_down :: startup where
  "broker_down = (healthy [''kafka_to_clickhouse_bridge.py'', ''--batch''])
                   \<lparr>broker_reachable := False\<rparr>"

definition creation_fails :: startup where
  "creation_fails = (healthy [''kafka_to_clickhouse_bridge.py'', ''--batch''])
                      \<lparr>create_ok := (\<lambda>i. False)\<rparr>"

text \<open>The keys of \<open>batch_data\<close>, in the order of the mapping.\<close>

definition tables :: "string list" where
  "tables = [''mongo_ecom_customers'', ''mongo_ecom_products'', ''mongo_ecom_orders'']"

definition tombstone :: message where
  \<open>tombstone = customer_msg (encode_ascii ''{"id": 7, "__deleted": true}'')\<close>

definition tombstone_first :: world where
  "tombstone_first =
     \<lparr>poll = (\<lambda>i. if i = 0 then PollMsg tombstone else PollMsg live), clock = (\<lambda>i. 0),
      start_clock = 0, insert_ok = (\<lambda>n. True)\<rparr>"

section \<open>The loop and its iterations\<close>

lemma poll_loop_Continue:
  "loop_iteration lib w a s = Continue s' \<Longrightarrow> poll_loop lib w a s = poll_loop lib w a s'"
  by (subst poll_loop.simps) simp

lemma poll_loop_iterate:
  "iterate lib w a n s = Continue s' \<Longrightarrow> poll_loop lib w a s = poll_loop lib w a s'"
  "iterate lib w a n s = Break s' \<Longrightarrow> poll_loop lib w a s = Some (LoopBreak s')"
  "iterate lib w a n s = Raise e s' \<Longrightarrow> poll_loop lib w a s = Some (LoopRaise e s')"
proof (induction n arbitrary: s)
  case 0
  { case 1 then show ?case by simp }
  { case 2 then show ?case by simp }
  { case 3 then show ?case by simp }
next
  case (Suc n)
  { case 1 then show ?case using Suc.IH(1)
      by (subst poll_loop.simps) (auto split: flow.splits) }
  { case 2 then show ?case using Suc.IH(2)
      by (subst poll_loop.simps) (auto split: flow.splits) }
  { case 3 then show ?case using Suc.IH(3)
      by (subst poll_loop.simps) (auto split: flow.splits) }
qed


section \<open>One message at a time\<close>

text \<open>A message that is not accepted leaves buffers, sink and counter as they are.\<close>

lemma loop_iteration_not_accepted:
  assumes "poll w (polled s) = PollMsg msg"
    and "\<forall>t v. accept lib msg \<noteq> Accept t v"
    and "\<forall>e. accept lib msg = Failed e \<longrightarrow> is_Exception e"
  shows "\<exists>s'. loop_iteration lib w a s = Continue s' \<and> batch_data s' = batch_data s
               \<and> inserts s' = inserts s \<and> message_count s' = message_count s
               \<and> polled s' = Suc (polled s)"
proof (cases "error msg")
  case (Some k)
  then show ?thesis using assms(1)
    by (cases k) (simp_all add: loop_iteration_def Let_def logger_def)
next
  case None
  then show ?thesis using assms
    by (cases "accept lib msg")
       (auto simp: loop_iteration_def Let_def logger_def process_message_def
             split: drop_reason.splits)
qed

lemma accept_Failed_Exception: "accept lib msg = Failed e \<Longrightarrow> is_Exception e"
  by (auto simp: accept_def record_filter_def
      split: option.splits if_splits sum.splits loads_error.splits json.splits)

lemma nonempty_strip: "strip text \<noteq> [] \<Longrightarrow> text \<noteq> []"
  by (auto simp: strip_def)

lemma accept_live:
  assumes "map_of topic_table_mapping (topic msg) = Some table"
    and "get_message_value lib msg = Some text"
    and "strip text \<noteq> []"
    and "json_loads lib text = Inr (JObject kvs)"
  shows "accept lib msg =
           (if eq_True (map_of kvs (str ''__deleted'')) then Filtered DeleteEvent text
            else Accept table text)"
proof -
  have "table \<noteq> []" using assms(1)
    by (auto simp: topic_table_mapping_def split: if_splits)
  then show ?thesis using assms nonempty_strip[OF assms(3)]
    by (simp add: accept_def record_filter_def)
qed

lemma update_update_same:
  "AList.update k v (AList.update k u al) = AList.update k v al"
  by (induction al) auto

lemma loop_iteration_accepted:
  assumes "poll w (polled s) = PollMsg msg" and "error msg = None"
    and "accept lib msg = Accept table text"
  shows "loop_iteration lib w a s =
           (case store_row w a table
                   \<lparr>raw_data = text, kafka_timestamp = py_int (clock w (polled s)),
                    kafka_offset = offset msg, kafka_partition = partition msg\<rparr>
                   (s\<lparr>polled := Suc (polled s)\<rparr>) of
              Raise e s' \<Rightarrow> if is_Exception e then Continue (logger ERROR (ProcessingError e) s')
                           else Raise e s'
            | r \<Rightarrow> r)"
  using assms by (simp add: loop_iteration_def Let_def process_message_def)

lemma sample_blank_value:
  "get_message_value sample_lib (customer_msg (encode_ascii '' '')) = Some (str '' '')"
  by (simp add: get_message_value_def sample_lib_def customer_msg_def encode_ascii_def
      ascii_decode_def str_def)

text \<open>
  Claim C1. A payload that is empty or all white space, or that \<open>json.loads\<close> rejects
  with \<open>JSONDecodeError\<close>, or that parses to an object whose \<open>__deleted\<close> member is
  \<open>true\<close>, is dropped by the record filter: the iteration continues with every buffer,
  the sink and the counter unchanged. The filter tests in this order: emptiness first
  (whatever parsing would give), then the parse, and the deletion marker only on a
  parsed payload.
\<close>

theorem record_filter_drops:
  assumes "poll w (polled s) = PollMsg msg"
    and "get_message_value lib msg = Some text"
    and "text = [] \<or> strip text = [] \<or> json_loads lib text = Inl JSONDecodeError
         \<or> (\<exists>kvs. json_loads lib text = Inr (JObject kvs)
                  \<and> map_of kvs (str ''__deleted'') = Some (JBool True))"
  shows "(\<exists>s'. loop_iteration lib w a s = Continue s' \<and> batch_data s' = batch_data s
               \<and> inserts s' = inserts s \<and> message_count s' = message_count s)
         \<and> record_filter lib text =
             (if text = [] \<or> strip text = [] then Skip EmptyPayload
              else if json_loads lib text = Inl JSONDecodeError then Skip InvalidPayload
              else Skip DeleteEvent)"
proof -
  have rf: "record_filter lib text =
             (if text = [] \<or> strip text = [] then Skip EmptyPayload
              else if json_loads lib text = Inl JSONDecodeError then Skip InvalidPayload
              else Skip DeleteEvent)"
    using assms(3) by (auto simp: record_filter_def)
  then have sk: "\<exists>r. record_filter lib text = Skip r" by auto
  have na: "\<forall>t v. accept lib msg \<noteq> Accept t v"
    using assms(2) sk by (auto simp: accept_def split: option.splits)
  have nf: "\<forall>e. accept lib msg = Failed e \<longrightarrow> is_Exception e"
    using assms(2) sk by (auto simp: accept_def split: option.splits)
  from loop_iteration_not_accepted[OF assms(1) na nf] rf show ?thesis by blast
qed

theorem record_filter_drops_witness:
  "poll (always (customer_msg (encode_ascii '' ''))) (polled (initial_state realtime_args))
     = PollMsg (customer_msg (encode_ascii '' ''))
   \<and> get_message_value sample_lib (customer_msg (encode_ascii '' '')) = Some (str '' '')
   \<and> strip (str '' '') = []
   \<and> (\<exists>s'. loop_iteration sample_lib (always (customer_msg (encode_ascii '' ''))) realtime_args
                (initial_state realtime_args) = Continue s'
             \<and> batch_data s' = batch_data (initial_state realtime_args)
             \<and> inserts s' = inserts (initial_state realtime_args)
             \<and> message_count s' = message_count (initial_state realtime_args))
   \<and> record_filter sample_lib (str '' '') = Skip EmptyPayload"
proof -
  have p: "poll (always (customer_msg (encode_ascii '' ''))) (polled (initial_state realtime_args))
     = PollMsg (customer_msg (encode_ascii '' ''))"
    by (simp add: always_def)
  have e: "strip (str '' '') = []"
    by (simp add: strip_def str_def is_space_def)
  from record_filter_drops[OF p sample_blank_value, of realtime_args] e p sample_blank_value
  show ?thesis by simp
qed


lemma sample_live_value:
  \<open>get_message_value sample_lib live = Some (str ''{"id": 7}'')\<close>
  by (simp add: live_def get_message_value_def sample_lib_def customer_msg_def encode_ascii_def
      ascii_decode_def str_def)

lemma sample_live_parse:
  \<open>json_loads sample_lib (str ''{"id": 7}'') = Inr (JObject [(str ''id'', JInt 7)])\<close>
  by (simp add: sample_lib_def sample_loads_def)

lemma sample_live_strip: \<open>strip (str ''{"id": 7}'') \<noteq> []\<close>
  by (simp add: strip_def str_def is_space_def)

lemma sample_live_marker: \<open>\<not> eq_True (map_of [(str ''id'', JInt 7)] (str ''__deleted''))\<close>
  by (simp add: str_def)

lemma sample_live_topic:
  "map_of topic_table_mapping (topic live) = Some ''mongo_ecom_customers''"
  by (simp add: live_def customer_msg_def topic_table_mapping_def)

lemma sample_initial_buffer:
  "map_of (batch_data (initial_state a)) ''mongo_ecom_customers'' = Some []"
  by (simp add: initial_state_def logger_def topic_table_mapping_def)


lemma sample_array_value: "get_message_value sample_lib bad_array = Some (str ''[]'')"
  by (simp add: bad_array_def get_message_value_def sample_lib_def customer_msg_def
      encode_ascii_def ascii_decode_def str_def)

lemma sample_array_parse: "json_loads sample_lib (str ''[]'') = Inr (JArray [])"
  by (simp add: sample_lib_def sample_loads_def str_def)

lemma sample_array_accept: "accept sample_lib bad_array = Failed AttributeError"
  using sample_array_value sample_array_parse
  by (simp add: accept_def record_filter_def bad_array_def customer_msg_def
      topic_table_mapping_def strip_def str_def is_space_def)

lemma sample_numeric_value:
  \<open>get_message_value sample_lib numeric_tombstone = Some (str ''{"id": 7, "__deleted": 1}'')\<close>
  by (simp add: numeric_tombstone_def get_message_value_def sample_lib_def customer_msg_def
      encode_ascii_def ascii_decode_def str_def)

lemma sample_numeric_parse:
  \<open>json_loads sample_lib (str ''{"id": 7, "__deleted": 1}'')
     = Inr (JObject [(str ''id'', JInt 7), (str ''__deleted'', JInt 1)])\<close>
  by (simp add: sample_lib_def sample_loads_def str_def)

lemma sample_numeric_strip: \<open>strip (str ''{"id": 7, "__deleted": 1}'') \<noteq> []\<close>
  by (simp add: strip_def str_def is_space_def)

lemma sample_numeric_marker:
  \<open>map_of [(str ''id'', JInt 7), (str ''__deleted'', JInt 1)] (str ''__deleted'') = Some (JInt 1)\<close>
  by (simp add: str_def)

lemma sample_numeric_topic:
  "map_of topic_table_mapping (topic numeric_tombstone) = Some ''mongo_ecom_customers''"
  by (simp add: numeric_tombstone_def customer_msg_def topic_table_mapping_def)

lemma always_poll: "poll (always m) i = PollMsg m"
  by (simp add: always_def)

lemma customer_msg_error: "error (customer_msg b) = None"
  by (simp add: customer_msg_def)

lemma table_nonempty:
  "map_of topic_table_mapping t = Some table \<Longrightarrow> table \<noteq> []"
  by (auto simp: topic_table_mapping_def split: if_splits)

text \<open>
  Claim C7, as the code has it. A message on a mapped topic whose payload decodes, is
  not blank, parses to a JSON object and whose \<open>__deleted\<close> member is absent or not equal
  to \<open>True\<close> under Python's \<open>==\<close> is kept: the counter goes up by one and exactly one row
  is appended to the table's buffer, its \<open>raw_data\<close> being the decoded payload text itself.
  When that append fills the buffer, the buffer with the new row goes to the sink in one
  insert call and is replaced by an empty one. (The table has a buffer in every state of
  a run, see \<open>buffer_in_every_state\<close> at the end.)
\<close>

theorem live_payload_kept:
  assumes "poll w (polled s) = PollMsg msg" and "error msg = None"
    and "map_of topic_table_mapping (topic msg) = Some table"
    and "get_message_value lib msg = Some text"
    and "strip text \<noteq> []"
    and "json_loads lib text = Inr (JObject kvs)"
    and "\<not> eq_True (map_of kvs (str ''__deleted''))"
    and "map_of (batch_data s) table = Some buf"
  shows "\<exists>s'. (loop_iteration lib w a s = Continue s' \<or> loop_iteration lib w a s = Break s')
           \<and> message_count s' = message_count s + 1
           \<and> (if length buf + 1 < batch_size
               then batch_data s' =
                      AList.update table
                        (buf @ [\<lparr>raw_data = text, kafka_timestamp = py_int (clock w (polled s)),
                                 kafka_offset = offset msg, kafka_partition = partition msg\<rparr>])
                        (batch_data s)
                    \<and> inserts s' = inserts s
               else batch_data s' = AList.update table [] (batch_data s)
                    \<and> inserts s' = inserts s @
                        [\<lparr>target = table,
                          rows = buf @ [\<lparr>raw_data = text,
                                          kafka_timestamp = py_int (clock w (polled s)),
                                          kafka_offset = offset msg,
                                          kafka_partition = partition msg\<rparr>],
                          succeeded = insert_ok w (length (inserts s))\<rparr>])"
proof -
  have acc: "accept lib msg = Accept table text"
    using accept_live[OF assms(3,4,5,6)] assms(7) by simp
  show ?thesis
    unfolding loop_iteration_accepted[OF assms(1,2) acc]
    using assms(8)
    by (auto simp: store_row_def Let_def insert_batch_def logger_def update_update_same)
qed

theorem live_payload_kept_witness:
  \<open>poll (always live) (polled (initial_state realtime_args)) = PollMsg live
   \<and> error live = None
   \<and> map_of topic_table_mapping (topic live) = Some ''mongo_ecom_customers''
   \<and> get_message_value sample_lib live = Some (str ''{"id": 7}'')
   \<and> strip (str ''{"id": 7}'') \<noteq> []
   \<and> json_loads sample_lib (str ''{"id": 7}'') = Inr (JObject [(str ''id'', JInt 7)])
   \<and> \<not> eq_True (map_of [(str ''id'', JInt 7)] (str ''__deleted''))
   \<and> map_of (batch_data (initial_state realtime_args)) ''mongo_ecom_customers'' = Some []
   \<and> (\<exists>s'. (loop_iteration sample_lib (always live) realtime_args (initial_state realtime_args)
               = Continue s'
             \<or> loop_iteration sample_lib (always live) realtime_args (initial_state realtime_args)
               = Break s')
           \<and> message_count s' = 1
           \<and> batch_data s' =
               [(''mongo_ecom_customers'',
                 [\<lparr>raw_data = str ''{"id": 7}'', kafka_timestamp = 0, kafka_offset = 0,
                   kafka_partition = 0\<rparr>]),
                (''mongo_ecom_products'', []), (''mongo_ecom_orders'', [])]
           \<and> inserts s' = [])\<close>
proof -
  have e: "error live = None" by (simp add: live_def customer_msg_def)
  have r: \<open>\<lparr>raw_data = str ''{"id": 7}'',
            kafka_timestamp = py_int (clock (always live) (polled (initial_state realtime_args))),
            kafka_offset = offset live, kafka_partition = partition live\<rparr>
          = \<lparr>raw_data = str ''{"id": 7}'', kafka_timestamp = 0, kafka_offset = 0,
             kafka_partition = 0\<rparr>\<close>
    by (simp add: always_def py_int_def live_def customer_msg_def)
  have b: "batch_data (initial_state realtime_args)
           = [(''mongo_ecom_customers'', []), (''mongo_ecom_products'', []),
              (''mongo_ecom_orders'', [])]"
    by (simp add: initial_state_def logger_def topic_table_mapping_def)
  have m: "message_count (initial_state realtime_args) = 0"
       "inserts (initial_state realtime_args) = []"
    by (simp_all add: initial_state_def logger_def)
  from live_payload_kept[where a = realtime_args, OF always_poll e sample_live_topic sample_live_value
      sample_live_strip sample_live_parse sample_live_marker
      sample_initial_buffer[of realtime_args]]
  obtain s' where st:
    "loop_iteration sample_lib (always live) realtime_args (initial_state realtime_args)
       = Continue s'
     \<or> loop_iteration sample_lib (always live) realtime_args (initial_state realtime_args)
       = Break s'"
    "message_count s' = 1"
    \<open>batch_data s' =
       [(''mongo_ecom_customers'',
         [\<lparr>raw_data = str ''{"id": 7}'', kafka_timestamp = 0, kafka_offset = 0,
           kafka_partition = 0\<rparr>]),
        (''mongo_ecom_products'', []), (''mongo_ecom_orders'', [])]\<close>
    "inserts s' = []"
    unfolding r b m by (auto simp: batch_size_def)
  then have ex: \<open>\<exists>s'. (loop_iteration sample_lib (always live) realtime_args
                    (initial_state realtime_args) = Continue s'
             \<or> loop_iteration sample_lib (always live) realtime_args
                    (initial_state realtime_args) = Break s')
           \<and> message_count s' = 1
           \<and> batch_data s' =
               [(''mongo_ecom_customers'',
                 [\<lparr>raw_data = str ''{"id": 7}'', kafka_timestamp = 0, kafka_offset = 0,
                   kafka_partition = 0\<rparr>]),
                (''mongo_ecom_products'', []), (''mongo_ecom_orders'', [])]
           \<and> inserts s' = []\<close>
    by blast
  show ?thesis
    by (intro conjI ex always_poll e sample_live_topic sample_live_value sample_live_strip
        sample_live_parse sample_live_marker sample_initial_buffer)
qed


lemma sample_numeric_accept:
  \<open>accept sample_lib numeric_tombstone
     = Filtered DeleteEvent (str ''{"id": 7, "__deleted": 1}'')\<close>
  using accept_live[OF sample_numeric_topic sample_numeric_value sample_numeric_strip
      sample_numeric_parse] sample_numeric_marker
  by simp

text \<open>
  Two payloads that parse and do not carry the deletion marker \<open>true\<close>, yet are not kept.
  \<open>[]\<close> is not an object: \<open>.get\<close> raises \<open>AttributeError\<close>, which the per-message handler
  logs. In the second the marker is the number \<open>1\<close>, which \<open>== True\<close> accepts as a delete
  event. In both runs every buffer stays empty.
\<close>

theorem parsed_payload_not_kept:
  \<open>json_loads sample_lib (str ''[]'') = Inr (JArray [])
   \<and> loop_iteration sample_lib (always bad_array) realtime_args (initial_state realtime_args)
       = Continue (logger ERROR (ProcessingError AttributeError)
                    ((initial_state realtime_args)\<lparr>polled := 1\<rparr>))
   \<and> json_loads sample_lib (str ''{"id": 7, "__deleted": 1}'')
       = Inr (JObject [(str ''id'', JInt 7), (str ''__deleted'', JInt 1)])
   \<and> loop_iteration sample_lib (always numeric_tombstone) realtime_args
         (initial_state realtime_args)
       = Continue (logger DEBUG (SkippingDelete ''mongo.ecom.ecom.customers'')
                    ((initial_state realtime_args)\<lparr>polled := 1\<rparr>))
   \<and> batch_data ((initial_state realtime_args)\<lparr>polled := 1\<rparr>)
       = [(''mongo_ecom_customers'', []), (''mongo_ecom_products'', []),
          (''mongo_ecom_orders'', [])]\<close>
proof -
  have 1: "loop_iteration sample_lib (always bad_array) realtime_args (initial_state realtime_args)
       = Continue (logger ERROR (ProcessingError AttributeError)
                    ((initial_state realtime_args)\<lparr>polled := 1\<rparr>))"
    using sample_array_accept
    by (simp add: loop_iteration_def Let_def process_message_def always_poll bad_array_def
        customer_msg_error initial_state_def logger_def)
  have 2: "loop_iteration sample_lib (always numeric_tombstone) realtime_args
         (initial_state realtime_args)
       = Continue (logger DEBUG (SkippingDelete ''mongo.ecom.ecom.customers'')
                    ((initial_state realtime_args)\<lparr>polled := 1\<rparr>))"
    using sample_numeric_accept
    by (simp add: loop_iteration_def Let_def process_message_def always_poll
        numeric_tombstone_def customer_msg_def initial_state_def logger_def)
  have 3: "batch_data ((initial_state realtime_args)\<lparr>polled := 1\<rparr>)
       = [(''mongo_ecom_customers'', []), (''mongo_ecom_products'', []),
          (''mongo_ecom_orders'', [])]"
    by (simp add: initial_state_def logger_def topic_table_mapping_def)
  show ?thesis by (intro conjI 1 2 3 sample_array_parse sample_numeric_parse)
qed

text \<open>
  Claim C9. A message whose non-empty payload \<open>bytes.decode\<close> rejects is dropped: the
  iteration continues with the next poll, and buffers, sink and counter are unchanged.
  When the message is a regular one on a mapped topic, the decode is reached, its
  \<open>UnicodeDecodeError\<close> is caught by the per-message handler and recorded by one log entry
  at level \<open>ERROR\<close> (the code keeps no numeric error counter).
\<close>

theorem undecodable_payload_dropped:
  assumes "poll w (polled s) = PollMsg msg" and "val msg = Some b" and "b \<noteq> []"
    and "decode_utf8 lib b = None"
  shows "\<exists>s'. loop_iteration lib w a s = Continue s'
           \<and> poll_loop lib w a s = poll_loop lib w a s'
           \<and> batch_data s' = batch_data s \<and> inserts s' = inserts s
           \<and> message_count s' = message_count s \<and> polled s' = Suc (polled s)
           \<and> (error msg = None \<and> (\<exists>table. map_of topic_table_mapping (topic msg) = Some table)
                \<longrightarrow> logs s' = logs s @ [(ERROR, ProcessingError UnicodeDecodeError)])"
proof -
  have g: "get_message_value lib msg = None"
    using assms(2,3,4) by (simp add: get_message_value_def)
  have acc: "accept lib msg =
               (case map_of topic_table_mapping (topic msg) of
                  None \<Rightarrow> NoTable | Some t \<Rightarrow> Failed UnicodeDecodeError)"
    using g by (auto simp: accept_def split: option.splits dest: table_nonempty)
  have "\<exists>s'. loop_iteration lib w a s = Continue s'
           \<and> batch_data s' = batch_data s \<and> inserts s' = inserts s
           \<and> message_count s' = message_count s \<and> polled s' = Suc (polled s)
           \<and> (error msg = None \<and> (\<exists>table. map_of topic_table_mapping (topic msg) = Some table)
                \<longrightarrow> logs s' = logs s @ [(ERROR, ProcessingError UnicodeDecodeError)])"
  proof (cases "error msg")
    case (Some k)
    then show ?thesis using assms(1)
      by (cases k) (simp_all add: loop_iteration_def Let_def logger_def)
  next
    case None
    then show ?thesis using assms(1) acc
      by (cases "map_of topic_table_mapping (topic msg)")
         (simp_all add: loop_iteration_def Let_def logger_def process_message_def)
  qed
  then show ?thesis using poll_loop_Continue by blast
qed

theorem undecodable_payload_dropped_witness:
  "poll (always undecodable) (polled (initial_state realtime_args)) = PollMsg undecodable
   \<and> val undecodable = Some [0xFF] \<and> [0xFF :: 8 word] \<noteq> []
   \<and> decode_utf8 sample_lib [0xFF] = None
   \<and> error undecodable = None
   \<and> map_of topic_table_mapping (topic undecodable) = Some ''mongo_ecom_customers''
   \<and> (\<exists>s'. loop_iteration sample_lib (always undecodable) realtime_args
               (initial_state realtime_args) = Continue s'
           \<and> poll_loop sample_lib (always undecodable) realtime_args (initial_state realtime_args)
               = poll_loop sample_lib (always undecodable) realtime_args s'
           \<and> batch_data s' = batch_data (initial_state realtime_args)
           \<and> inserts s' = inserts (initial_state realtime_args)
           \<and> message_count s' = message_count (initial_state realtime_args)
           \<and> polled s' = Suc (polled (initial_state realtime_args))
           \<and> logs s' = logs (initial_state realtime_args)
                         @ [(ERROR, ProcessingError UnicodeDecodeError)])"
proof -
  have v: "val undecodable = Some [0xFF]" by (simp add: undecodable_def customer_msg_def)
  have n: "[0xFF :: 8 word] \<noteq> []" by simp
  have d: "decode_utf8 sample_lib [0xFF] = None"
    by (simp add: sample_lib_def ascii_decode_def)
  have e: "error undecodable = None" by (simp add: undecodable_def customer_msg_def)
  have t: "map_of topic_table_mapping (topic undecodable) = Some ''mongo_ecom_customers''"
    by (simp add: undecodable_def customer_msg_def topic_table_mapping_def)
  from undecodable_payload_dropped[where a = realtime_args, OF always_poll v n d] e t
  have ex: "\<exists>s'. loop_iteration sample_lib (always undecodable) realtime_args
               (initial_state realtime_args) = Continue s'
           \<and> poll_loop sample_lib (always undecodable) realtime_args (initial_state realtime_args)
               = poll_loop sample_lib (always undecodable) realtime_args s'
           \<and> batch_data s' = batch_data (initial_state realtime_args)
           \<and> inserts s' = inserts (initial_state realtime_args)
           \<and> message_count s' = message_count (initial_state realtime_args)
           \<and> polled s' = Suc (polled (initial_state realtime_args))
           \<and> logs s' = logs (initial_state realtime_args)
                         @ [(ERROR, ProcessingError UnicodeDecodeError)]"
    by blast
  show ?thesis by (intro conjI ex always_poll v n d e t)
qed

text \<open>
  Claim C10. For an object payload on a mapped topic: when \<open>__deleted\<close> holds the number
  \<open>1\<close> the message is dropped as a delete event and nothing is stored; the message is
  accepted exactly when the value of \<open>__deleted\<close> (\<open>None\<close> when absent) is not equal to
  \<open>True\<close> under \<open>==\<close>, which holds for the string \<open>"true"\<close>, for \<open>false\<close> and for an absent
  member, and fails for \<open>1\<close> and \<open>true\<close>.
\<close>

theorem numeric_one_is_tombstone:
  assumes "poll w (polled s) = PollMsg msg" and "error msg = None"
    and "map_of topic_table_mapping (topic msg) = Some table"
    and "get_message_value lib msg = Some text"
    and "strip text \<noteq> []"
    and "json_loads lib text = Inr (JObject kvs)"
  shows "(map_of kvs (str ''__deleted'') = Some (JInt 1) \<longrightarrow>
            accept lib msg = Filtered DeleteEvent text
            \<and> (\<exists>s'. loop_iteration lib w a s = Continue s' \<and> batch_data s' = batch_data s
                     \<and> inserts s' = inserts s \<and> message_count s' = message_count s))
         \<and> (accept lib msg = Accept table text
              \<longleftrightarrow> \<not> eq_True (map_of kvs (str ''__deleted'')))
         \<and> eq_True (Some (JInt 1)) \<and> eq_True (Some (JBool True))
         \<and> \<not> eq_True (Some (JString (str ''true''))) \<and> \<not> eq_True (Some (JBool False))
         \<and> \<not> eq_True None"
proof -
  note acc = accept_live[OF assms(3,4,5,6)]
  have "\<exists>s'. loop_iteration lib w a s = Continue s' \<and> batch_data s' = batch_data s
                     \<and> inserts s' = inserts s \<and> message_count s' = message_count s"
    if "map_of kvs (str ''__deleted'') = Some (JInt 1)"
  proof -
    have f: "accept lib msg = Filtered DeleteEvent text" using acc that by simp
    from loop_iteration_not_accepted[OF assms(1), of lib a] f show ?thesis by auto
  qed
  then show ?thesis using acc by auto
qed

theorem numeric_one_is_tombstone_witness:
  \<open>poll (always numeric_tombstone) (polled (initial_state realtime_args))
     = PollMsg numeric_tombstone
   \<and> error numeric_tombstone = None
   \<and> map_of topic_table_mapping (topic numeric_tombstone) = Some ''mongo_ecom_customers''
   \<and> get_message_value sample_lib numeric_tombstone
       = Some (str ''{"id": 7, "__deleted": 1}'')
   \<and> strip (str ''{"id": 7, "__deleted": 1}'') \<noteq> []
   \<and> json_loads sample_lib (str ''{"id": 7, "__deleted": 1}'')
       = Inr (JObject [(str ''id'', JInt 7), (str ''__deleted'', JInt 1)])
   \<and> map_of [(str ''id'', JInt 7), (str ''__deleted'', JInt 1)] (str ''__deleted'')
       = Some (JInt 1)
   \<and> accept sample_lib numeric_tombstone
       = Filtered DeleteEvent (str ''{"id": 7, "__deleted": 1}'')
   \<and> (\<exists>s'. loop_iteration sample_lib (always numeric_tombstone) realtime_args
               (initial_state realtime_args) = Continue s'
           \<and> batch_data s' = batch_data (initial_state realtime_args)
           \<and> inserts s' = inserts (initial_state realtime_args)
           \<and> message_count s' = message_count (initial_state realtime_args))\<close>
proof -
  have e: "error numeric_tombstone = None"
    by (simp add: numeric_tombstone_def customer_msg_def)
  note th = numeric_one_is_tombstone[where a = realtime_args, OF always_poll e sample_numeric_topic
      sample_numeric_value sample_numeric_strip sample_numeric_parse]
  from th sample_numeric_marker
  have a: \<open>accept sample_lib numeric_tombstone
       = Filtered DeleteEvent (str ''{"id": 7, "__deleted": 1}'')\<close>
    by blast
  from th sample_numeric_marker
  have ex: "\<exists>s'. loop_iteration sample_lib (always numeric_tombstone) realtime_args
               (initial_state realtime_args) = Continue s'
           \<and> batch_data s' = batch_data (initial_state realtime_args)
           \<and> inserts s' = inserts (initial_state realtime_args)
           \<and> message_count s' = message_count (initial_state realtime_args)"
    by blast
  show ?thesis
    by (intro conjI ex a always_poll e sample_numeric_topic sample_numeric_value
        sample_numeric_strip sample_numeric_parse sample_numeric_marker)
qed


lemma sample_live_accept:
  \<open>accept sample_lib live = Accept ''mongo_ecom_customers'' (str ''{"id": 7}'')\<close>
  using accept_live[OF sample_live_topic sample_live_value sample_live_strip sample_live_parse]
    sample_live_marker
  by simp

lemma sink_down_poll: "poll (sink_down m) i = PollMsg m"
  by (simp add: sink_down_def)

lemma live_error: "error live = None"
  by (simp add: live_def customer_msg_def)

text \<open>
  Claim C5. An accepted message fills its table's buffer and the insert call fails. The
  iteration does not raise: it ends as it would after a successful insert (the loop
  continues unless the message limit is reached with this message). The sink has
  received exactly one, failed, call with the batch; the table's buffer is empty, so the
  rows are neither requeued nor sent again; the other buffers are untouched; the failure
  is in the log. A later flush calls the sink again, and succeeds when the sink does.
\<close>

theorem failed_insert_discards_batch:
  assumes "poll w (polled s) = PollMsg msg" and "error msg = None"
    and "accept lib msg = Accept table text"
    and "map_of (batch_data s) table = Some buf"
    and "length buf + 1 \<ge> batch_size"
    and "\<not> insert_ok w (length (inserts s))"
  shows "\<exists>s'. loop_iteration lib w a s
                 = (if limit_reached a (message_count s + 1) then Break s' else Continue s')
           \<and> map_of (batch_data s') table = Some []
           \<and> (\<forall>t. t \<noteq> table \<longrightarrow> map_of (batch_data s') t = map_of (batch_data s) t)
           \<and> inserts s' = inserts s @
                 [\<lparr>target = table,
                   rows = buf @ [\<lparr>raw_data = text,
                                   kafka_timestamp = py_int (clock w (polled s)),
                                   kafka_offset = offset msg,
                                   kafka_partition = partition msg\<rparr>],
                   succeeded = False\<rparr>]
           \<and> (ERROR, InsertError table) \<in> set (logs s')
           \<and> (\<forall>t d. insert_ok w (length (inserts s')) \<longrightarrow>
                 inserts (insert_batch w t d s')
                   = inserts s' @ [\<lparr>target = t, rows = d, succeeded = True\<rparr>])
           \<and> (\<not> limit_reached a (message_count s + 1) \<longrightarrow>
                 poll_loop lib w a s = poll_loop lib w a s')"
proof -
  have "\<exists>s'. loop_iteration lib w a s
                 = (if limit_reached a (message_count s + 1) then Break s' else Continue s')
           \<and> map_of (batch_data s') table = Some []
           \<and> (\<forall>t. t \<noteq> table \<longrightarrow> map_of (batch_data s') t = map_of (batch_data s) t)
           \<and> inserts s' = inserts s @
                 [\<lparr>target = table,
                   rows = buf @ [\<lparr>raw_data = text,
                                   kafka_timestamp = py_int (clock w (polled s)),
                                   kafka_offset = offset msg,
                                   kafka_partition = partition msg\<rparr>],
                   succeeded = False\<rparr>]
           \<and> (ERROR, InsertError table) \<in> set (logs s')
           \<and> (\<forall>t d. insert_ok w (length (inserts s')) \<longrightarrow>
                 inserts (insert_batch w t d s')
                   = inserts s' @ [\<lparr>target = t, rows = d, succeeded = True\<rparr>])"
    unfolding loop_iteration_accepted[OF assms(1,2,3)]
    using assms(4,5,6)
    by (auto simp: store_row_def Let_def insert_batch_def logger_def update_update_same
        update_conv')
  then obtain s' where s': "loop_iteration lib w a s
                 = (if limit_reached a (message_count s + 1) then Break s' else Continue s')"
     and rest: "map_of (batch_data s') table = Some []
           \<and> (\<forall>t. t \<noteq> table \<longrightarrow> map_of (batch_data s') t = map_of (batch_data s) t)
           \<and> inserts s' = inserts s @
                 [\<lparr>target = table,
                   rows = buf @ [\<lparr>raw_data = text,
                                   kafka_timestamp = py_int (clock w (polled s)),
                                   kafka_offset = offset msg,
                                   kafka_partition = partition msg\<rparr>],
                   succeeded = False\<rparr>]
           \<and> (ERROR, InsertError table) \<in> set (logs s')
           \<and> (\<forall>t d. insert_ok w (length (inserts s')) \<longrightarrow>
                 inserts (insert_batch w t d s')
                   = inserts s' @ [\<lparr>target = t, rows = d, succeeded = True\<rparr>])"
    by blast
  have "\<not> limit_reached a (message_count s + 1) \<longrightarrow>
                 poll_loop lib w a s = poll_loop lib w a s'"
    using s' poll_loop_Continue by simp
  with s' rest show ?thesis by blast
qed


theorem failed_insert_discards_batch_witness:
  \<open>poll (sink_down live) (polled nearly_full) = PollMsg live
   \<and> error live = None
   \<and> accept sample_lib live = Accept ''mongo_ecom_customers'' (str ''{"id": 7}'')
   \<and> map_of (batch_data nearly_full) ''mongo_ecom_customers'' = Some (replicate 99 sample_row)
   \<and> length (replicate 99 sample_row) + 1 \<ge> batch_size
   \<and> \<not> insert_ok (sink_down live) (length (inserts nearly_full))
   \<and> \<not> limit_reached (batch_args 1000) (message_count nearly_full + 1)
   \<and> (\<exists>s'. loop_iteration sample_lib (sink_down live) (batch_args 1000) nearly_full
               = Continue s'
           \<and> map_of (batch_data s') ''mongo_ecom_customers'' = Some []
           \<and> map_of (batch_data s') ''mongo_ecom_orders''
               = map_of (batch_data nearly_full) ''mongo_ecom_orders''
           \<and> inserts s' =
                 [\<lparr>target = ''mongo_ecom_customers'',
                   rows = replicate 99 sample_row @ [sample_row], succeeded = False\<rparr>]
           \<and> (ERROR, InsertError ''mongo_ecom_customers'') \<in> set (logs s')
           \<and> inserts (insert_batch (sink_down live) ''mongo_ecom_orders'' [sample_row] s')
               = inserts s' @ [\<lparr>target = ''mongo_ecom_orders'', rows = [sample_row],
                                succeeded = True\<rparr>]
           \<and> poll_loop sample_lib (sink_down live) (batch_args 1000) nearly_full
               = poll_loop sample_lib (sink_down live) (batch_args 1000) s')\<close>
proof -
  have b: "map_of (batch_data nearly_full) ''mongo_ecom_customers''
             = Some (replicate 99 sample_row)"
    by (simp add: nearly_full_def)
  have l: "length (replicate 99 sample_row) + 1 \<ge> batch_size"
    by (simp add: batch_size_def)
  have f: "\<not> insert_ok (sink_down live) (length (inserts nearly_full))"
    by (simp add: sink_down_def nearly_full_def)
  have m: "\<not> limit_reached (batch_args 1000) (message_count nearly_full + 1)"
    by (simp add: limit_reached_def batch_args_def nearly_full_def)
  have r: \<open>\<lparr>raw_data = str ''{"id": 7}'',
            kafka_timestamp = py_int (clock (sink_down live) (polled nearly_full)),
            kafka_offset = offset live, kafka_partition = partition live\<rparr> = sample_row\<close>
    by (simp add: sink_down_def py_int_def live_def customer_msg_def sample_row_def)
  have i: "inserts nearly_full = []" by (simp add: nearly_full_def)
  from failed_insert_discards_batch[where a = "batch_args 1000", OF sink_down_poll live_error sample_live_accept b l f]
  obtain s' where st:
    "loop_iteration sample_lib (sink_down live) (batch_args 1000) nearly_full = Continue s'"
    "map_of (batch_data s') ''mongo_ecom_customers'' = Some []"
    "\<forall>t. t \<noteq> ''mongo_ecom_customers'' \<longrightarrow>
        map_of (batch_data s') t = map_of (batch_data nearly_full) t"
    "inserts s' = [\<lparr>target = ''mongo_ecom_customers'',
                    rows = replicate 99 sample_row @ [sample_row], succeeded = False\<rparr>]"
    "(ERROR, InsertError ''mongo_ecom_customers'') \<in> set (logs s')"
    "\<forall>t d. insert_ok (sink_down live) (length (inserts s')) \<longrightarrow>
        inserts (insert_batch (sink_down live) t d s')
          = inserts s' @ [\<lparr>target = t, rows = d, succeeded = True\<rparr>]"
    "poll_loop sample_lib (sink_down live) (batch_args 1000) nearly_full
       = poll_loop sample_lib (sink_down live) (batch_args 1000) s'"
    unfolding r i using m by auto
  have o: "map_of (batch_data s') ''mongo_ecom_orders''
               = map_of (batch_data nearly_full) ''mongo_ecom_orders''"
    using st(3) by simp
  have "insert_ok (sink_down live) (length (inserts s'))"
    by (simp add: st(4) sink_down_def)
  with st(6) have n: "inserts (insert_batch (sink_down live) ''mongo_ecom_orders'' [sample_row] s')
               = inserts s' @ [\<lparr>target = ''mongo_ecom_orders'', rows = [sample_row],
                                succeeded = True\<rparr>]"
    by blast
  have ex: "\<exists>s'. loop_iteration sample_lib (sink_down live) (batch_args 1000) nearly_full
               = Continue s'
           \<and> map_of (batch_data s') ''mongo_ecom_customers'' = Some []
           \<and> map_of (batch_data s') ''mongo_ecom_orders''
               = map_of (batch_data nearly_full) ''mongo_ecom_orders''
           \<and> inserts s' =
                 [\<lparr>target = ''mongo_ecom_customers'',
                   rows = replicate 99 sample_row @ [sample_row], succeeded = False\<rparr>]
           \<and> (ERROR, InsertError ''mongo_ecom_customers'') \<in> set (logs s')
           \<and> inserts (insert_batch (sink_down live) ''mongo_ecom_orders'' [sample_row] s')
               = inserts s' @ [\<lparr>target = ''mongo_ecom_orders'', rows = [sample_row],
                                succeeded = True\<rparr>]
           \<and> poll_loop sample_lib (sink_down live) (batch_args 1000) nearly_full
               = poll_loop sample_lib (sink_down live) (batch_args 1000) s'"
    using st(1,2,4,5,7) o n by blast
  show ?thesis
    by (intro conjI ex sink_down_poll live_error sample_live_accept b l f m)
qed


section \<open>Buffers stay below the threshold\<close>

text \<open>What one iteration can do to buffers, sink and counter.\<close>

lemma store_row_effect:
  assumes "map_of (batch_data s) table = Some buf"
  shows "\<exists>s'. store_row w a table row s
                 = (if limit_reached a (message_count s + 1) then Break s' else Continue s')
           \<and> message_count s' = message_count s + 1 \<and> polled s' = polled s
           \<and> (if length buf + 1 < batch_size
               then batch_data s' = AList.update table (buf @ [row]) (batch_data s)
                    \<and> inserts s' = inserts s
               else batch_data s' = AList.update table [] (batch_data s)
                    \<and> inserts s' = inserts s @
                        [\<lparr>target = table, rows = buf @ [row],
                          succeeded = insert_ok w (length (inserts s))\<rparr>])"
  using assms
  by (auto simp: store_row_def Let_def insert_batch_def logger_def update_update_same)

lemma store_row_KeyError:
  "map_of (batch_data s) table = None \<Longrightarrow> store_row w a table row s = Raise KeyError s"
  by (simp add: store_row_def)

lemma loop_iteration_effect:
  fixes lib w a s
  defines "s' \<equiv> flow_state (loop_iteration lib w a s)"
  shows "polled s' = Suc (polled s) \<and>
         ((batch_data s' = batch_data s \<and> inserts s' = inserts s
            \<and> message_count s' = message_count s)
          \<or> (\<exists>table row buf. map_of (batch_data s) table = Some buf
                \<and> message_count s' = message_count s + 1
                \<and> (if length buf + 1 < batch_size
                    then batch_data s' = AList.update table (buf @ [row]) (batch_data s)
                         \<and> inserts s' = inserts s
                    else batch_data s' = AList.update table [] (batch_data s)
                         \<and> inserts s' = inserts s @
                             [\<lparr>target = table, rows = buf @ [row],
                               succeeded = insert_ok w (length (inserts s))\<rparr>])))"
proof (cases "poll w (polled s)")
  case PollNone
  then show ?thesis by (simp add: s'_def loop_iteration_def Let_def logger_def)
next
  case (PollRaise e)
  then show ?thesis by (simp add: s'_def loop_iteration_def Let_def)
next
  case (PollMsg msg)
  show ?thesis
  proof (cases "error msg = None \<and> (\<exists>t v. accept lib msg = Accept t v)")
    case False
    then show ?thesis using PollMsg
      by (cases "error msg"; cases "accept lib msg")
         (auto simp: s'_def loop_iteration_def Let_def logger_def process_message_def
               split: drop_reason.splits kafka_error.splits)
  next
    case True
    then obtain table payload where e: "error msg = None"
      and acc: "accept lib msg = Accept table payload"
      by blast
    let ?row = "\<lparr>raw_data = payload, kafka_timestamp = py_int (clock w (polled s)),
                 kafka_offset = offset msg, kafka_partition = partition msg\<rparr>"
    let ?s0 = "s\<lparr>polled := Suc (polled s)\<rparr>"
    note li = loop_iteration_accepted[OF PollMsg e acc, of a]
    show ?thesis
    proof (cases "map_of (batch_data s) table")
      case None
      then have "store_row w a table ?row ?s0 = Raise KeyError ?s0"
        by (simp add: store_row_KeyError)
      then show ?thesis by (simp add: s'_def li logger_def)
    next
      case (Some buf)
      then have "map_of (batch_data ?s0) table = Some buf" by simp
      from store_row_effect[OF this, of w a ?row] obtain t where
        t: "store_row w a table ?row ?s0
              = (if limit_reached a (message_count ?s0 + 1) then Break t else Continue t)"
        and r: "message_count t = message_count s + 1" "polled t = Suc (polled s)"
           "if length buf + 1 < batch_size
               then batch_data t = AList.update table (buf @ [?row]) (batch_data s)
                    \<and> inserts t = inserts s
               else batch_data t = AList.update table [] (batch_data s)
                    \<and> inserts t = inserts s @
                        [\<lparr>target = table, rows = buf @ [?row],
                          succeeded = insert_ok w (length (inserts s))\<rparr>]"
        by auto
      from t have "s' = t" by (auto simp: s'_def li split: if_splits)
      with r Some show ?thesis by blast
    qed
  qed
qed


lemma set_update_cases:
  "e \<in> set (AList.update k v al) \<Longrightarrow> e = (k, v) \<or> e \<in> set al"
  by (induction al) (auto split: if_splits)

lemma threshold_step:
  assumes "\<forall>e\<in>set (batch_data s). length (snd e) < batch_size"
    and "\<forall>c\<in>set (inserts s). length (rows c) = batch_size"
  shows "(\<forall>e\<in>set (batch_data (flow_state (loop_iteration lib w a s))).
            length (snd e) < batch_size)
         \<and> (\<forall>c\<in>set (inserts (flow_state (loop_iteration lib w a s))).
              length (rows c) = batch_size)"
proof -
  let ?s' = "flow_state (loop_iteration lib w a s)"
  from loop_iteration_effect[of lib w a s]
  consider (same) "batch_data ?s' = batch_data s" "inserts ?s' = inserts s"
    | (store) table row buf where "map_of (batch_data s) table = Some buf"
        "if length buf + 1 < batch_size
         then batch_data ?s' = AList.update table (buf @ [row]) (batch_data s)
              \<and> inserts ?s' = inserts s
         else batch_data ?s' = AList.update table [] (batch_data s)
              \<and> inserts ?s' = inserts s @
                  [\<lparr>target = table, rows = buf @ [row],
                    succeeded = insert_ok w (length (inserts s))\<rparr>]"
    by blast
  then show ?thesis
  proof cases
    case same
    then show ?thesis using assms by simp
  next
    case store
    from store(1) have "(table, buf) \<in> set (batch_data s)" by (rule map_of_SomeD)
    with assms(1) have lb: "length buf < batch_size" by auto
    have pos: "0 < batch_size" by (simp add: batch_size_def)
    show ?thesis
    proof (cases "length buf + 1 < batch_size")
      case True
      with store(2) assms lb show ?thesis by (auto dest!: set_update_cases)
    next
      case False
      with lb have "length (buf @ [row]) = batch_size" by simp
      with False store(2) assms pos show ?thesis by (auto dest!: set_update_cases)
    qed
  qed
qed

lemma threshold_iterate:
  assumes "\<forall>e\<in>set (batch_data s). length (snd e) < batch_size"
    and "\<forall>c\<in>set (inserts s). length (rows c) = batch_size"
  shows "(\<forall>e\<in>set (batch_data (flow_state (iterate lib w a n s))). length (snd e) < batch_size)
         \<and> (\<forall>c\<in>set (inserts (flow_state (iterate lib w a n s))). length (rows c) = batch_size)"
  using assms
proof (induction n arbitrary: s)
  case 0
  then show ?case by simp
next
  case (Suc n)
  note st = threshold_step[OF Suc.prems, of lib w a]
  show ?case
  proof (cases "loop_iteration lib w a s")
    case (Continue s')
    with st Suc.IH[of s'] show ?thesis by simp
  next
    case (Break s')
    with st show ?thesis by simp
  next
    case (Raise e s')
    with st show ?thesis by simp
  qed
qed

lemma threshold_initial:
  "(\<forall>e\<in>set (batch_data (initial_state a)). length (snd e) < batch_size)
   \<and> (\<forall>c\<in>set (inserts (initial_state a)). length (rows c) = batch_size)"
  by (simp add: initial_state_def logger_def topic_table_mapping_def batch_size_def)

lemma poll_loop_SomeD:
  "poll_loop lib w a s = Some ex \<Longrightarrow>
     \<exists>n. (case ex of LoopBreak s' \<Rightarrow> iterate lib w a n s = Break s'
                    | LoopRaise e s' \<Rightarrow> iterate lib w a n s = Raise e s')"
proof (induction rule: poll_loop.raw_induct[rotated 1, consumes 1])
  case (1 poll_loop' lib w a s ex)
  show ?case
  proof (cases "loop_iteration lib w a s")
    case (Continue s')
    with 1(2) have "poll_loop' lib w a s' = Some ex" by simp
    from 1(1)[OF this] obtain n where
      "case ex of LoopBreak t \<Rightarrow> iterate lib w a n s' = Break t
                | LoopRaise e t \<Rightarrow> iterate lib w a n s' = Raise e t" by blast
    with Continue have
      "case ex of LoopBreak t \<Rightarrow> iterate lib w a (Suc n) s = Break t
                | LoopRaise e t \<Rightarrow> iterate lib w a (Suc n) s = Raise e t"
      by (simp split: loop_exit.splits)
    then show ?thesis by blast
  next
    case (Break s')
    with 1(2) have "ex = LoopBreak s'" by simp
    moreover have "iterate lib w a (Suc 0) s = Break s'" using Break by simp
    ultimately show ?thesis by (intro exI[of _ "Suc 0"]) simp
  next
    case (Raise e s')
    with 1(2) have "ex = LoopRaise e s'" by simp
    moreover have "iterate lib w a (Suc 0) s = Raise e s'" using Raise by simp
    ultimately show ?thesis by (intro exI[of _ "Suc 0"]) simp
  qed
qed

lemma drain_threshold:
  assumes "\<forall>e\<in>set bd. length (snd e) < batch_size"
    and "\<forall>c\<in>set (inserts s). 0 < length (rows c) \<and> length (rows c) \<le> batch_size"
  shows "\<forall>c\<in>set (inserts (drain w bd s)). 0 < length (rows c) \<and> length (rows c) \<le> batch_size"
  using assms
proof (induction bd arbitrary: s)
  case Nil
  then show ?case by simp
next
  case (Cons e bd)
  obtain t d where e: "e = (t, d)" by (cases e)
  have "\<forall>c\<in>set (inserts (if d \<noteq> [] then insert_batch w t d s else s)).
          0 < length (rows c) \<and> length (rows c) \<le> batch_size"
    using Cons.prems e by (auto simp: insert_batch_def logger_def Let_def)
  with Cons.IH[of "if d \<noteq> [] then insert_batch w t d s else s"] Cons.prems(1) e
  show ?case by simp
qed

text \<open>
  Whatever the broker delivers and whatever the sink answers, after any number of
  iterations every buffer is shorter than the batch size and every insert call made so
  far carried exactly \<open>batch_size\<close> rows; at the end of a run no insert call carried more
  than \<open>batch_size\<close> rows, or none.
\<close>

lemma threshold_invariant:
  "(\<forall>e\<in>set (batch_data (flow_state (iterate lib w a n (initial_state a)))).
      length (snd e) < batch_size)
   \<and> (\<forall>c\<in>set (inserts (flow_state (iterate lib w a n (initial_state a)))).
        length (rows c) = batch_size)
   \<and> (\<forall>r. consume_and_load lib w a = Some r \<longrightarrow>
        (\<forall>c\<in>set (inserts (call_state r)).
           0 < length (rows c) \<and> length (rows c) \<le> batch_size))"
proof -
  note it = threshold_iterate[OF threshold_initial[of a, THEN conjunct1]
      threshold_initial[of a, THEN conjunct2]]
  have "\<forall>c\<in>set (inserts (call_state r)). 0 < length (rows c) \<and> length (rows c) \<le> batch_size"
    if r: "consume_and_load lib w a = Some r" for r
  proof -
    from r obtain ex where ex: "poll_loop lib w a (initial_state a) = Some ex"
      by (auto simp: consume_and_load_def split: option.splits)
    from poll_loop_SomeD[OF ex] obtain n where
      n: "case ex of LoopBreak s' \<Rightarrow> iterate lib w a n (initial_state a) = Break s'
                   | LoopRaise e s' \<Rightarrow> iterate lib w a n (initial_state a) = Raise e s'"
      by blast
    have pos: "0 < batch_size" by (simp add: batch_size_def)
    show ?thesis
    proof (cases ex)
      case (LoopBreak s')
      with n have "iterate lib w a n (initial_state a) = Break s'" by simp
      with it[where lib = lib and w = w and n = n and a = a] have
        b: "\<forall>e\<in>set (batch_data s'). length (snd e) < batch_size"
        and i: "\<forall>c\<in>set (inserts s'). length (rows c) = batch_size" by auto
      from i pos have "\<forall>c\<in>set (inserts s'). 0 < length (rows c) \<and> length (rows c) \<le> batch_size"
        by auto
      from drain_threshold[OF b this, of w] r ex LoopBreak show ?thesis
        by (auto simp: consume_and_load_def logger_def)
    next
      case (LoopRaise e s')
      with n have "iterate lib w a n (initial_state a) = Raise e s'" by simp
      with it[where lib = lib and w = w and n = n and a = a]
      have "\<forall>c\<in>set (inserts s'). length (rows c) = batch_size" by auto
      with pos have "\<forall>c\<in>set (inserts s'). 0 < length (rows c) \<and> length (rows c) \<le> batch_size"
        by auto
      with r ex LoopRaise show ?thesis
        by (auto simp: consume_and_load_def logger_def split: if_splits)
    qed
  qed
  with it[where lib = lib and w = w and n = n and a = a] show ?thesis by blast
qed


lemma sample_row_eq:
  \<open>\<lparr>raw_data = str ''{"id": 7}'', kafka_timestamp = py_int (clock (always live) i),
    kafka_offset = offset live, kafka_partition = partition live\<rparr> = sample_row\<close>
  by (simp add: always_def py_int_def live_def customer_msg_def sample_row_def)

section \<open>Counting messages up to the limit\<close>

lemma iterate_Suc_end:
  "iterate lib w a (Suc n) s =
     (case iterate lib w a n s of Continue s' \<Rightarrow> loop_iteration lib w a s' | r \<Rightarrow> r)"
proof (induction n arbitrary: s)
  case 0
  show ?case by (simp split: flow.splits)
next
  case (Suc n)
  show ?case
  proof (cases "loop_iteration lib w a s")
    case (Continue s')
    have "iterate lib w a (Suc (Suc n)) s = iterate lib w a (Suc n) s'"
      using Continue by simp
    also have "\<dots> = (case iterate lib w a n s' of
                        Continue t \<Rightarrow> loop_iteration lib w a t | r \<Rightarrow> r)"
      by (rule Suc.IH)
    also have "iterate lib w a n s' = iterate lib w a (Suc n) s"
      using Continue by simp
    finally show ?thesis .
  next
    case (Break s')
    then show ?thesis by simp
  next
    case (Raise e s')
    then show ?thesis by simp
  qed
qed

lemma initial_keys: "map fst (batch_data (initial_state a)) = tables"
  by (simp add: initial_state_def logger_def topic_table_mapping_def tables_def)

lemma accept_table: "accept lib m = Accept table v \<Longrightarrow> table \<in> set tables"
  by (auto simp: accept_def topic_table_mapping_def tables_def
      split: option.splits if_splits filter_result.splits)

lemma buffer_present:
  assumes "accept lib m = Accept table v" and "map fst (batch_data s) = tables"
  shows "\<exists>buf. map_of (batch_data s) table = Some buf"
proof -
  from accept_table[OF assms(1)] assms(2) have "table \<in> fst ` set (batch_data s)"
    by (metis set_map)
  then show ?thesis by (metis map_of_eq_None_iff not_Some_eq)
qed

lemma sum_update:
  "map_of al k = Some old \<Longrightarrow>
     sum_list (map (\<lambda>e. length (snd e)) (AList.update k v al)) + length old
       = sum_list (map (\<lambda>e. length (snd e)) al) + length v"
  by (induction al) (auto split: if_splits)

lemma keys_update:
  "map_of al k = Some old \<Longrightarrow> map fst (AList.update k v al) = map fst al"
  by (induction al) (auto split: if_splits)

lemma loop_iteration_kept:
  assumes "poll w (polled s) = PollMsg m" and "error m = None"
    and "accept lib m = Accept table v"
    and "map_of (batch_data s) table = Some buf"
  shows "\<exists>s'. loop_iteration lib w a s
                 = (if limit_reached a (message_count s + 1) then Break s' else Continue s')
           \<and> message_count s' = message_count s + 1 \<and> polled s' = Suc (polled s)
           \<and> (if length buf + 1 < batch_size
               then batch_data s' =
                      AList.update table
                        (buf @ [\<lparr>raw_data = v, kafka_timestamp = py_int (clock w (polled s)),
                                 kafka_offset = offset m, kafka_partition = partition m\<rparr>])
                        (batch_data s)
                    \<and> inserts s' = inserts s
               else batch_data s' = AList.update table [] (batch_data s)
                    \<and> inserts s' = inserts s @
                        [\<lparr>target = table,
                          rows = buf @ [\<lparr>raw_data = v,
                                          kafka_timestamp = py_int (clock w (polled s)),
                                          kafka_offset = offset m,
                                          kafka_partition = partition m\<rparr>],
                          succeeded = insert_ok w (length (inserts s))\<rparr>])"
proof -
  let ?s0 = "s\<lparr>polled := Suc (polled s)\<rparr>"
  let ?row = "\<lparr>raw_data = v, kafka_timestamp = py_int (clock w (polled s)),
               kafka_offset = offset m, kafka_partition = partition m\<rparr>"
  have "map_of (batch_data ?s0) table = Some buf" using assms(4) by simp
  from store_row_effect[OF this, of w a ?row] obtain s' where
    st: "store_row w a table ?row ?s0
           = (if limit_reached a (message_count ?s0 + 1) then Break s' else Continue s')"
    and r: "message_count s' = message_count ?s0 + 1" "polled s' = polled ?s0"
      "if length buf + 1 < batch_size
       then batch_data s' = AList.update table (buf @ [?row]) (batch_data ?s0)
            \<and> inserts s' = inserts ?s0
       else batch_data s' = AList.update table [] (batch_data ?s0)
            \<and> inserts s' = inserts ?s0 @
                [\<lparr>target = table, rows = buf @ [?row],
                  succeeded = insert_ok w (length (inserts ?s0))\<rparr>]"
    by blast
  have "loop_iteration lib w a s
          = (if limit_reached a (message_count s + 1) then Break s' else Continue s')"
    unfolding loop_iteration_accepted[OF assms(1,2,3)] using st by simp
  with r show ?thesis by (intro exI[of _ s']) simp
qed

lemma loop_iteration_kept_counts:
  assumes "poll w (polled s) = PollMsg m" and "error m = None"
    and "accept lib m = Accept table v"
    and "map fst (batch_data s) = tables"
  shows "\<exists>s'. loop_iteration lib w a s
                 = (if limit_reached a (message_count s + 1) then Break s' else Continue s')
           \<and> message_count s' = message_count s + 1 \<and> polled s' = Suc (polled s)
           \<and> map fst (batch_data s') = tables
           \<and> buffered s' + sent s' = buffered s + sent s + 1"
proof -
  from buffer_present[OF assms(3,4)] obtain buf where
    buf: "map_of (batch_data s) table = Some buf" by blast
  from loop_iteration_kept[OF assms(1,2,3) buf, of a] obtain s' row where
    fl: "loop_iteration lib w a s
           = (if limit_reached a (message_count s + 1) then Break s' else Continue s')"
    and c: "message_count s' = message_count s + 1" "polled s' = Suc (polled s)"
    and b: "if length buf + 1 < batch_size
            then batch_data s' = AList.update table (buf @ [row]) (batch_data s)
                 \<and> inserts s' = inserts s
            else batch_data s' = AList.update table [] (batch_data s)
                 \<and> inserts s' = inserts s @
                     [\<lparr>target = table, rows = buf @ [row],
                       succeeded = insert_ok w (length (inserts s))\<rparr>]"
    by blast
  have k: "map fst (batch_data s') = tables"
    using b keys_update[OF buf] assms(4) by (auto split: if_splits)
  have "buffered s' + sent s' = buffered s + sent s + 1"
  proof (cases "length buf + 1 < batch_size")
    case True
    with b sum_update[OF buf, of "buf @ [row]"] show ?thesis
      by (simp add: buffered_def sent_def)
  next
    case False
    with b sum_update[OF buf, of "[]"] show ?thesis
      by (simp add: buffered_def sent_def)
  qed
  with fl c k show ?thesis by blast
qed

lemma loop_iteration_not_kept:
  assumes "poll w (polled s) = PollMsg m" and "\<not> kept lib (PollMsg m)"
  shows "\<exists>s'. loop_iteration lib w a s = Continue s' \<and> batch_data s' = batch_data s
               \<and> inserts s' = inserts s \<and> message_count s' = message_count s
               \<and> polled s' = Suc (polled s)"
proof (cases "error m")
  case (Some k)
  then show ?thesis using assms(1)
    by (cases k) (simp_all add: loop_iteration_def Let_def logger_def)
next
  case None
  with assms(2) have "\<forall>t v. accept lib m \<noteq> Accept t v"
    by (auto simp: kept_def)
  from loop_iteration_not_accepted[OF assms(1) this] accept_Failed_Exception
  show ?thesis by blast
qed

lemma kept_before_Suc:
  "kept_before lib w (Suc n) = kept_before lib w n + (if kept lib (poll w n) then 1 else 0)"
  by (simp add: kept_before_def)


lemma limit_reached_batch:
  "\<not> realtime a \<Longrightarrow> max_messages a = Some k \<Longrightarrow> limit_reached a c \<longleftrightarrow> k \<noteq> 0 \<and> k \<le> c"
  by (simp add: limit_reached_def)

lemma initial_counts:
  "polled (initial_state a) = 0" "message_count (initial_state a) = 0"
  "buffered (initial_state a) = 0" "sent (initial_state a) = 0"
  by (simp_all add: initial_state_def logger_def buffered_def sent_def topic_table_mapping_def)

lemma run_messages:
  assumes "\<not> realtime a" and "max_messages a = Some k"
    and "\<forall>i<n. \<exists>m. poll w i = PollMsg m"
    and "int (kept_before lib w n) < k"
  shows "\<exists>s. iterate lib w a n (initial_state a) = Continue s \<and> polled s = n
           \<and> message_count s = int (kept_before lib w n)
           \<and> map fst (batch_data s) = tables
           \<and> buffered s + sent s = kept_before lib w n"
  using assms(3,4)
proof (induction n)
  case 0
  show ?case by (simp add: initial_counts initial_keys kept_before_def)
next
  case (Suc n)
  have "kept_before lib w n \<le> kept_before lib w (Suc n)" by (simp add: kept_before_Suc)
  with Suc.prems have "int (kept_before lib w n) < k" by linarith
  with Suc.IH Suc.prems(1) obtain s where
    it: "iterate lib w a n (initial_state a) = Continue s" and p: "polled s = n"
    and c: "message_count s = int (kept_before lib w n)"
    and k: "map fst (batch_data s) = tables"
    and b: "buffered s + sent s = kept_before lib w n"
    by auto
  from Suc.prems(1) obtain m where m: "poll w n = PollMsg m" by auto
  have step: "iterate lib w a (Suc n) (initial_state a) = loop_iteration lib w a s"
    by (simp only: iterate_Suc_end it flow.case)
  show ?case
  proof (cases "kept lib (poll w n)")
    case True
    with m obtain table v where e: "error m = None" and acc: "accept lib m = Accept table v"
      by (auto simp: kept_def split: verdict.splits)
    have nl: "\<not> limit_reached a (message_count s + 1)"
      using Suc.prems(2) True c
      by (simp add: limit_reached_batch[OF assms(1,2)] kept_before_Suc)
    from loop_iteration_kept_counts[OF _ e acc k, of w a] m p nl obtain s' where
      "loop_iteration lib w a s = Continue s'" "message_count s' = message_count s + 1"
      "polled s' = Suc (polled s)" "map fst (batch_data s') = tables"
      "buffered s' + sent s' = buffered s + sent s + 1"
      by auto
    with step True p c b show ?thesis by (simp add: kept_before_Suc)
  next
    case False
    with m have "\<not> kept lib (PollMsg m)" by simp
    from loop_iteration_not_kept[OF _ this, of w s a] m p obtain s' where
      "loop_iteration lib w a s = Continue s'" "batch_data s' = batch_data s"
      "inserts s' = inserts s" "message_count s' = message_count s"
      "polled s' = Suc (polled s)"
      by auto
    with step False p c b k show ?thesis
      by (simp add: kept_before_Suc buffered_def sent_def)
  qed
qed

lemma drain_unchanged:
  "polled (drain w bd s) = polled s \<and> message_count (drain w bd s) = message_count s"
  by (induction bd arbitrary: s) (auto simp: insert_batch_def logger_def Let_def)

lemma drain_sent:
  "sent (drain w bd s) = sent s + sum_list (map (\<lambda>e. length (snd e)) bd)"
  by (induction bd arbitrary: s) (auto simp: insert_batch_def logger_def Let_def sent_def)

lemma stored_le_sent: "stored s \<le> sent s"
proof -
  have "sum_list (map f (filter P xs)) \<le> sum_list (map f xs)" for f :: "'a \<Rightarrow> nat" and P xs
    by (induction xs) auto
  then show ?thesis by (simp add: stored_def sent_def)
qed

lemma run_to_limit:
  assumes "\<not> realtime a" and "max_messages a = Some k"
    and "\<forall>i\<le>p. \<exists>m. poll w i = PollMsg m"
    and "kept lib (poll w p)"
    and "int (kept_before lib w p) + 1 = k"
  shows "\<exists>s. consume_and_load lib w a = Some (Returned s) \<and> polled s = Suc p
           \<and> message_count s = k \<and> int (sent s) = k \<and> int (stored s) \<le> k"
proof -
  from assms(3) have "\<forall>i<p. \<exists>m. poll w i = PollMsg m" by auto
  from run_messages[OF assms(1,2) this, of lib] assms(5) obtain s where
    it: "iterate lib w a p (initial_state a) = Continue s" and p: "polled s = p"
    and c: "message_count s = int (kept_before lib w p)"
    and k: "map fst (batch_data s) = tables"
    and b: "buffered s + sent s = kept_before lib w p"
    by auto
  from assms(3) obtain m where m: "poll w p = PollMsg m" by auto
  with assms(4) obtain table v where e: "error m = None"
    and acc: "accept lib m = Accept table v"
    by (auto simp: kept_def split: verdict.splits)
  have lr: "limit_reached a (message_count s + 1)"
    using assms(5) c by (simp add: limit_reached_batch[OF assms(1,2)])
  from loop_iteration_kept_counts[OF _ e acc k, of w a] m p lr obtain s' where
    li: "loop_iteration lib w a s = Break s'" and c': "message_count s' = message_count s + 1"
    and p': "polled s' = Suc (polled s)"
    and b': "buffered s' + sent s' = buffered s + sent s + 1"
    by auto
  have "iterate lib w a (Suc p) (initial_state a) = Break s'"
    by (simp only: iterate_Suc_end it flow.case li)
  from poll_loop_iterate(2)[OF this]
  have cl: "consume_and_load lib w a
          = Some (Returned (logger INFO (Processed (message_count s'))
                    (drain w (batch_data s') s')))"
    by (simp add: consume_and_load_def)
  let ?f = "logger INFO (Processed (message_count s')) (drain w (batch_data s') s')"
  have 1: "polled ?f = Suc p" "message_count ?f = k"
    using drain_unchanged[of w "batch_data s'" s'] p p' c c' assms(5)
    by (simp_all add: logger_def)
  have "sent ?f = sent s' + buffered s'"
    using drain_sent[of w "batch_data s'" s'] by (simp add: logger_def sent_def buffered_def)
  with b' b assms(5) have 2: "int (sent ?f) = k" by simp
  have "stored ?f \<le> sent ?f" by (rule stored_le_sent)
  with 2 have 3: "int (stored ?f) \<le> k" by simp
  from cl 1 2 3 show ?thesis by blast
qed


lemma kept_before_mono: "n \<le> p \<Longrightarrow> kept_before lib w n \<le> kept_before lib w p"
  by (induction p) (auto simp: kept_before_Suc le_Suc_eq)

text \<open>
  Claim C3, as the code has it. In batch mode with a message limit of 50, fed messages at
  every poll, the loop ends with the poll that delivers the 50th kept message; the counter
  is \<open>message_count\<close>, which only an accepted message advances, so dropped messages do not
  count: after any smaller number of polls the loop is still running and the counter equals
  the number of kept messages so far. The final flush then leaves exactly 50 rows handed
  to the sink, so at most 50 are stored.
\<close>

theorem limit_counts_kept_messages:
  assumes "\<not> realtime a" and "max_messages a = Some 50"
    and "\<forall>i\<le>p. \<exists>m. poll w i = PollMsg m"
    and "kept lib (poll w p)"
    and "kept_before lib w p = 49"
  shows "(\<exists>s. consume_and_load lib w a = Some (Returned s) \<and> polled s = Suc p
            \<and> message_count s = 50 \<and> sent s = 50 \<and> stored s \<le> 50)
         \<and> (\<forall>n\<le>p. \<exists>t. iterate lib w a n (initial_state a) = Continue t
                 \<and> message_count t = int (kept_before lib w n))"
proof -
  have k: "int (kept_before lib w p) + 1 = 50" using assms(5) by simp
  from run_to_limit[OF assms(1,2,3,4) k]
  have 1: "\<exists>s. consume_and_load lib w a = Some (Returned s) \<and> polled s = Suc p
            \<and> message_count s = 50 \<and> sent s = 50 \<and> stored s \<le> 50"
    by auto
  have 2: "\<exists>t. iterate lib w a n (initial_state a) = Continue t
              \<and> message_count t = int (kept_before lib w n)" if n: "n \<le> p" for n
  proof -
    have "kept_before lib w n \<le> kept_before lib w p"
      using n by (rule kept_before_mono)
    with assms(5) have lt: "int (kept_before lib w n) < 50" by simp
    from assms(3) n have "\<forall>i<n. \<exists>m. poll w i = PollMsg m" by auto
    from run_messages[OF assms(1,2) this lt] show ?thesis by blast
  qed
  from 1 2 show ?thesis by blast
qed


lemma sample_live_kept: "kept sample_lib (PollMsg live)"
  by (simp add: kept_def live_error sample_live_accept)

lemma sample_tombstone_value:
  \<open>get_message_value sample_lib tombstone = Some (str ''{"id": 7, "__deleted": true}'')\<close>
  by (simp add: tombstone_def get_message_value_def sample_lib_def customer_msg_def
      encode_ascii_def ascii_decode_def str_def)

lemma sample_tombstone_parse:
  \<open>json_loads sample_lib (str ''{"id": 7, "__deleted": true}'')
     = Inr (JObject [(str ''id'', JInt 7), (str ''__deleted'', JBool True)])\<close>
  by (simp add: sample_lib_def sample_loads_def str_def)

lemma sample_tombstone_strip: \<open>strip (str ''{"id": 7, "__deleted": true}'') \<noteq> []\<close>
  by (simp add: strip_def str_def is_space_def)

lemma sample_tombstone_topic:
  "map_of topic_table_mapping (topic tombstone) = Some ''mongo_ecom_customers''"
  by (simp add: tombstone_def customer_msg_def topic_table_mapping_def)

lemma sample_tombstone_accept:
  \<open>accept sample_lib tombstone
     = Filtered DeleteEvent (str ''{"id": 7, "__deleted": true}'')\<close>
  using accept_live[OF sample_tombstone_topic sample_tombstone_value sample_tombstone_strip
      sample_tombstone_parse]
  by (simp add: str_def)

lemma sample_tombstone_not_kept: "\<not> kept sample_lib (PollMsg tombstone)"
  by (simp add: kept_def sample_tombstone_accept)

lemma always_kept_before: "kept_before sample_lib (always live) n = n"
  by (simp add: kept_before_def always_poll sample_live_kept)

lemma tombstone_first_kept_before:
  "kept_before sample_lib tombstone_first (Suc n) = n"
proof (induction n)
  case 0
  show ?case
    by (simp add: kept_before_def tombstone_first_def sample_tombstone_not_kept)
next
  case (Suc n)
  have "kept sample_lib (poll tombstone_first (Suc n))"
    by (simp add: tombstone_first_def sample_live_kept)
  with Suc show ?case by (simp add: kept_before_Suc[of _ _ "Suc n"])
qed

theorem limit_counts_kept_messages_witness:
  "\<not> realtime (batch_args 50) \<and> max_messages (batch_args 50) = Some 50
   \<and> poll (always live) = (\<lambda>i. PollMsg live)
   \<and> kept sample_lib (poll (always live) 49)
   \<and> kept_before sample_lib (always live) 49 = 49
   \<and> (\<exists>s. consume_and_load sample_lib (always live) (batch_args 50) = Some (Returned s)
          \<and> polled s = 50 \<and> message_count s = 50 \<and> sent s = 50 \<and> stored s \<le> 50)"
proof -
  have r: "\<not> realtime (batch_args 50)" and m: "max_messages (batch_args 50) = Some 50"
    by (simp_all add: batch_args_def)
  have p: "poll (always live) = (\<lambda>i. PollMsg live)" by (simp add: always_def)
  then have q: "\<forall>i\<le>49. \<exists>m. poll (always live) i = PollMsg m" by simp
  have k: "kept sample_lib (poll (always live) 49)" by (simp add: p sample_live_kept)
  have b: "kept_before sample_lib (always live) 49 = 49" by (rule always_kept_before)
  from limit_counts_kept_messages[OF r m q k b]
  have ex: "\<exists>s. consume_and_load sample_lib (always live) (batch_args 50) = Some (Returned s)
          \<and> polled s = 50 \<and> message_count s = 50 \<and> sent s = 50 \<and> stored s \<le> 50"
    by simp
  show ?thesis by (intro conjI r m p k b ex)
qed

text \<open>
  A delete event followed by regular messages, with limit 50: after the 50th processed
  message the loop is still running with 49 messages counted, and it ends only after the
  51st poll.
\<close>

theorem limit_ignores_dropped_messages:
  "(\<exists>t. iterate sample_lib tombstone_first (batch_args 50) 50 (initial_state (batch_args 50))
          = Continue t \<and> message_count t = 49)
   \<and> (\<exists>s. consume_and_load sample_lib tombstone_first (batch_args 50) = Some (Returned s)
          \<and> polled s = 51 \<and> message_count s = 50)"
proof -
  have r: "\<not> realtime (batch_args 50)" and m: "max_messages (batch_args 50) = Some 50"
    by (simp_all add: batch_args_def)
  have q: "\<forall>i<n. \<exists>m. poll tombstone_first i = PollMsg m" for n
    by (simp add: tombstone_first_def)
  have q': "\<forall>i\<le>50. \<exists>m. poll tombstone_first i = PollMsg m"
    by (simp add: tombstone_first_def)
  have kb: "kept_before sample_lib tombstone_first 50 = 49"
    using tombstone_first_kept_before[of 49] by simp
  then have lt: "int (kept_before sample_lib tombstone_first 50) < 50" by simp
  from run_messages[OF r m q lt] kb
  have 1: "\<exists>t. iterate sample_lib tombstone_first (batch_args 50) 50
                 (initial_state (batch_args 50)) = Continue t \<and> message_count t = 49"
    by auto
  have k: "kept sample_lib (poll tombstone_first 50)"
    by (simp add: tombstone_first_def sample_live_kept)
  have e: "int (kept_before sample_lib tombstone_first 50) + 1 = 50" using kb by simp
  from run_to_limit[OF r m q' k e]
  have 2: "\<exists>s. consume_and_load sample_lib tombstone_first (batch_args 50) = Some (Returned s)
          \<and> polled s = 51 \<and> message_count s = 50"
    by auto
  from 1 2 show ?thesis by blast
qed


section \<open>A run of 250 messages for one table\<close>

lemma initial_batch_data:
  "batch_data (initial_state a) =
     [(''mongo_ecom_customers'', []), (''mongo_ecom_products'', []), (''mongo_ecom_orders'', [])]"
  by (simp add: initial_state_def logger_def topic_table_mapping_def)

lemma map_of_update_initial:
  "table \<in> set tables \<Longrightarrow>
     map_of (AList.update table buf (batch_data (initial_state a))) table = Some buf"
  by (simp add: update_conv')

lemma drain_single:
  assumes "table \<in> set tables" and "buf \<noteq> []"
  shows "drain w (AList.update table buf (batch_data (initial_state a))) s
           = insert_batch w table buf s"
  using assms by (auto simp: initial_batch_data tables_def)

lemma single_table_run:
  fixes m :: "nat \<Rightarrow> message" and v :: "nat \<Rightarrow> pystr" and w :: world
  defines "R \<equiv> \<lambda>i. \<lparr>raw_data = v i, kafka_timestamp = py_int (clock w i),
                       kafka_offset = offset (m i), kafka_partition = partition (m i)\<rparr>"
  assumes msgs: "\<forall>i<n. poll w i = PollMsg (m i) \<and> error (m i) = None
                    \<and> accept lib (m i) = Accept table (v i)"
    and lim: "\<forall>c. 0 < c \<and> c \<le> int n \<longrightarrow> \<not> limit_reached a c"
    and tbl: "table \<in> set tables"
  shows "\<exists>s buf. iterate lib w a n (initial_state a) = Continue s \<and> polled s = n
           \<and> message_count s = int n
           \<and> batch_data s = AList.update table buf (batch_data (initial_state a))
           \<and> length buf = n mod 100
           \<and> concat (map rows (inserts s)) @ buf = map R [0..<n]
           \<and> map (\<lambda>c. (target c, length (rows c))) (inserts s)
               = replicate (n div 100) (table, 100)
           \<and> map succeeded (inserts s) = map (insert_ok w) [0..<n div 100]"
  using msgs lim
proof (induction n)
  case 0
  have "batch_data (initial_state a) = AList.update table [] (batch_data (initial_state a))"
    using tbl by (auto simp: initial_batch_data tables_def)
  then show ?case
    by (intro exI[of _ "initial_state a"] exI[of _ "[]"])
       (simp add: initial_counts initial_state_def logger_def)
next
  case (Suc n)
  from Suc.prems have "\<forall>i<n. poll w i = PollMsg (m i) \<and> error (m i) = None
                    \<and> accept lib (m i) = Accept table (v i)"
    and "\<forall>c. 0 < c \<and> c \<le> int n \<longrightarrow> \<not> limit_reached a c"
    by auto
  from Suc.IH[OF this] obtain s buf where
    it: "iterate lib w a n (initial_state a) = Continue s" and p: "polled s = n"
    and c: "message_count s = int n"
    and b: "batch_data s = AList.update table buf (batch_data (initial_state a))"
    and l: "length buf = n mod 100"
    and r: "concat (map rows (inserts s)) @ buf = map R [0..<n]"
    and t: "map (\<lambda>c. (target c, length (rows c))) (inserts s)
               = replicate (n div 100) (table, 100)"
    and o: "map succeeded (inserts s) = map (insert_ok w) [0..<n div 100]"
    by blast
  from Suc.prems(1) have pm: "poll w (polled s) = PollMsg (m n)" and e: "error (m n) = None"
    and acc: "accept lib (m n) = Accept table (v n)"
    using p by auto
  have mo: "map_of (batch_data s) table = Some buf"
    unfolding b using tbl by (rule map_of_update_initial)
  have nl: "\<not> limit_reached a (message_count s + 1)"
    using Suc.prems(2) c by simp
  have li: "length (inserts s) = n div 100"
    using arg_cong[OF t, of length] by simp
  from loop_iteration_kept[OF pm e acc mo, of a] nl obtain s' where
    st: "loop_iteration lib w a s = Continue s'" and c': "message_count s' = message_count s + 1"
    and p': "polled s' = Suc (polled s)"
    and b': "if length buf + 1 < batch_size
             then batch_data s' = AList.update table (buf @ [R n]) (batch_data s)
                  \<and> inserts s' = inserts s
             else batch_data s' = AList.update table [] (batch_data s)
                  \<and> inserts s' = inserts s @
                      [\<lparr>target = table, rows = buf @ [R n],
                        succeeded = insert_ok w (length (inserts s))\<rparr>]"
    unfolding R_def p by auto
  have step: "iterate lib w a (Suc n) (initial_state a) = Continue s'"
    by (simp only: iterate_Suc_end it flow.case st)
  show ?case
  proof (cases "length buf + 1 < batch_size")
    case True
    then have lt: "n mod 100 + 1 < 100" using l by (simp add: batch_size_def)
    then have md: "Suc n mod 100 = n mod 100 + 1" and dv: "Suc n div 100 = n div 100"
      by (simp_all add: mod_Suc div_Suc)
    from True b' have bd: "batch_data s' = AList.update table (buf @ [R n])
                                            (batch_data (initial_state a))"
      and ins: "inserts s' = inserts s"
      by (simp_all add: b update_update_same)
    show ?thesis
      by (intro exI[of _ s'] exI[of _ "buf @ [R n]"])
         (simp add: step p' p c' c bd ins l md dv t o r[symmetric] del: iterate.simps)
  next
    case False
    then have eq: "n mod 100 = 99" using l by (simp add: batch_size_def)
    then have md: "Suc n mod 100 = 0" and dv: "Suc n div 100 = Suc (n div 100)"
      by (simp_all add: mod_Suc div_Suc)
    from False b' have bd: "batch_data s' = AList.update table []
                                            (batch_data (initial_state a))"
      and ins: "inserts s' = inserts s @
                      [\<lparr>target = table, rows = buf @ [R n],
                        succeeded = insert_ok w (length (inserts s))\<rparr>]"
      by (simp_all add: b update_update_same)
    have len: "length (buf @ [R n]) = 100" using l eq by simp
    show ?thesis
      by (intro exI[of _ s'] exI[of _ "[]"])
         (simp add: step p' p c' c bd ins md dv t o li len r[symmetric]
            replicate_append_same del: length_append iterate.simps)
  qed
qed


text \<open>
  Batch mode with a message limit of 250; the first 250 polls deliver regular messages
  that are all accepted for one table. The loop ends with the 250th message, having made
  two insert calls of exactly 100 rows each for that table; the final flush adds one call
  of 50 rows. The three calls together carry the 250 rows in the order of arrival, and
  all 250 are stored when the three calls succeed.
\<close>

lemma scenario_250_message_limit:
  fixes m :: "nat \<Rightarrow> message" and v :: "nat \<Rightarrow> pystr" and w :: world
  defines "R \<equiv> \<lambda>i. \<lparr>raw_data = v i, kafka_timestamp = py_int (clock w i),
                       kafka_offset = offset (m i), kafka_partition = partition (m i)\<rparr>"
  assumes "\<not> realtime a" and "max_messages a = Some 250"
    and msgs: "\<forall>i<250. poll w i = PollMsg (m i) \<and> error (m i) = None
                     \<and> accept lib (m i) = Accept table (v i)"
  shows "\<exists>t s. iterate lib w a 250 (initial_state a) = Break t
           \<and> map (\<lambda>c. (target c, length (rows c))) (inserts t) = [(table, 100), (table, 100)]
           \<and> consume_and_load lib w a = Some (Returned s)
           \<and> map (\<lambda>c. (target c, length (rows c))) (inserts s)
               = [(table, 100), (table, 100), (table, 50)]
           \<and> take 2 (inserts s) = inserts t
           \<and> concat (map rows (inserts s)) = map R [0..<250]
           \<and> map succeeded (inserts s) = [insert_ok w 0, insert_ok w 1, insert_ok w 2]
           \<and> sent s = 250
           \<and> (if insert_ok w 0 \<and> insert_ok w 1 \<and> insert_ok w 2 then stored s = 250
               else stored s < 250)"
proof -
  from msgs have acc0: "accept lib (m 0) = Accept table (v 0)" by simp
  then have tbl: "table \<in> set tables" by (rule accept_table)
  have m249: "\<forall>i<249. poll w i = PollMsg (m i) \<and> error (m i) = None
                     \<and> accept lib (m i) = Accept table (v i)"
    using msgs by simp
  have lim: "\<forall>c. 0 < c \<and> c \<le> int 249 \<longrightarrow> \<not> limit_reached a c"
    by (simp add: limit_reached_batch[OF assms(2,3)])
  from single_table_run[OF m249 lim tbl] obtain s buf where
    it: "iterate lib w a 249 (initial_state a) = Continue s" and p: "polled s = 249"
    and c: "message_count s = 249"
    and b: "batch_data s = AList.update table buf (batch_data (initial_state a))"
    and l: "length buf = 49"
    and r: "concat (map rows (inserts s)) @ buf = map R [0..<249]"
    and t: "map (\<lambda>c. (target c, length (rows c))) (inserts s) = [(table, 100), (table, 100)]"
    and o: "map succeeded (inserts s) = [insert_ok w 0, insert_ok w 1]"
    unfolding R_def by (auto simp: numeral_2_eq_2 upt_rec[of 0] upt_rec[of "Suc 0"])
  from msgs have pm: "poll w (polled s) = PollMsg (m 249)" and e: "error (m 249) = None"
    and acc: "accept lib (m 249) = Accept table (v 249)"
    using p by auto
  have mo: "map_of (batch_data s) table = Some buf"
    unfolding b using tbl by (rule map_of_update_initial)
  have lr: "limit_reached a (message_count s + 1)"
    using c by (simp add: limit_reached_batch[OF assms(2,3)])
  from loop_iteration_kept[OF pm e acc mo, of a] lr l obtain s' where
    st: "loop_iteration lib w a s = Break s'" and c': "message_count s' = 250"
    and bd: "batch_data s' = AList.update table (buf @ [R 249]) (batch_data (initial_state a))"
    and ins: "inserts s' = inserts s"
    unfolding R_def p by (auto simp: batch_size_def b c update_update_same)
  have "iterate lib w a (Suc 249) (initial_state a) = Break s'"
    by (simp only: iterate_Suc_end it flow.case st)
  then have br: "iterate lib w a 250 (initial_state a) = Break s'" by simp
  let ?last = "\<lparr>target = table, rows = buf @ [R 249],
                succeeded = insert_ok w (length (inserts s'))\<rparr>"
  let ?f = "logger INFO (Processed (message_count s')) (drain w (batch_data s') s')"
  have len2: "length (inserts s) = 2" using arg_cong[OF t, of length] by simp
  have dr: "drain w (batch_data s') s' = insert_batch w table (buf @ [R 249]) s'"
    unfolding bd by (rule drain_single[OF tbl]) simp
  have fin: "inserts ?f = inserts s @ [\<lparr>target = table, rows = buf @ [R 249],
                                       succeeded = insert_ok w 2\<rparr>]"
    by (simp add: dr insert_batch_def logger_def Let_def ins len2)
  from poll_loop_iterate(2)[OF br]
  have cl: "consume_and_load lib w a = Some (Returned ?f)"
    by (simp add: consume_and_load_def)
  have 1: "map (\<lambda>c. (target c, length (rows c))) (inserts ?f)
               = [(table, 100), (table, 100), (table, 50)]"
    by (simp only: fin map_append t) (simp add: l)
  have 2: "take 2 (inserts ?f) = inserts s'"
    by (simp only: fin) (simp add: len2 ins)
  have "[0..<250] = [0..<249] @ [249]"
    using upt_Suc_append[of 0 249] by simp
  then have 3: "concat (map rows (inserts ?f)) = map R [0..<250]"
    by (simp only: fin) (simp add: r[symmetric])
  have 4: "map succeeded (inserts ?f) = [insert_ok w 0, insert_ok w 1, insert_ok w 2]"
    by (simp only: fin map_append o) simp
  have sm: "sum_list (map (\<lambda>c. length (rows c)) xs) = sum_list (map snd (map (\<lambda>c. (target c, length (rows c))) xs))"
    for xs :: "insert_call list"
    by (simp add: comp_def)
  have 5: "sent ?f = 250"
    unfolding sent_def sm 1 by simp
  obtain c0 c1 c2 where cs: "inserts ?f = [c0, c1, c2]"
    using arg_cong[OF 1, of length]
    by (cases "inserts ?f"; simp) (metis (no_types) length_0_conv length_Suc_conv)
  from 1 4 cs have
    "length (rows c0) = 100" "length (rows c1) = 100" "length (rows c2) = 50"
    "succeeded c0 = insert_ok w 0" "succeeded c1 = insert_ok w 1" "succeeded c2 = insert_ok w 2"
    by simp_all
  then have 6: "if insert_ok w 0 \<and> insert_ok w 1 \<and> insert_ok w 2 then stored ?f = 250
               else stored ?f < 250"
    unfolding stored_def cs by auto
  have t': "map (\<lambda>c. (target c, length (rows c))) (inserts s') = [(table, 100), (table, 100)]"
    using t ins by simp
  show ?thesis
    by (intro exI[of _ s'] exI[of _ ?f] conjI br t' cl 1 2 3 4 5 6)
qed


lemma scenario_250_message_limit_example:
  \<open>\<not> realtime (batch_args 250) \<and> max_messages (batch_args 250) = Some 250
   \<and> poll (always live) = (\<lambda>i. PollMsg live)
   \<and> error live = None
   \<and> accept sample_lib live = Accept ''mongo_ecom_customers'' (str ''{"id": 7}'')
   \<and> (\<exists>s. consume_and_load sample_lib (always live) (batch_args 250) = Some (Returned s)
          \<and> map (\<lambda>c. (target c, length (rows c))) (inserts s)
              = [(''mongo_ecom_customers'', 100), (''mongo_ecom_customers'', 100),
                 (''mongo_ecom_customers'', 50)]
          \<and> concat (map rows (inserts s)) = replicate 250 sample_row
          \<and> sent s = 250 \<and> stored s = 250)\<close>
proof -
  have r: "\<not> realtime (batch_args 250)" and m: "max_messages (batch_args 250) = Some 250"
    by (simp_all add: batch_args_def)
  have p: "poll (always live) = (\<lambda>i. PollMsg live)" by (simp add: always_def)
  have q: \<open>\<forall>i<250. poll (always live) i = PollMsg ((\<lambda>i. live) i) \<and> error ((\<lambda>i. live) i) = None
             \<and> accept sample_lib ((\<lambda>i. live) i)
                 = Accept ''mongo_ecom_customers'' ((\<lambda>i. str ''{"id": 7}'') i)\<close>
    by (simp add: p live_error sample_live_accept)
  have ok: "insert_ok (always live) n" for n by (simp add: always_def)
  have rows: \<open>map (\<lambda>i. \<lparr>raw_data = str ''{"id": 7}'',
                        kafka_timestamp = py_int (clock (always live) i),
                        kafka_offset = offset live, kafka_partition = partition live\<rparr>)
               [0..<250] = replicate 250 sample_row\<close>
    by (simp add: sample_row_eq map_replicate_const)
  from scenario_250_message_limit[OF r m q, unfolded rows] obtain t s where
    st: "consume_and_load sample_lib (always live) (batch_args 250) = Some (Returned s)"
    "map (\<lambda>c. (target c, length (rows c))) (inserts s)
              = [(''mongo_ecom_customers'', 100), (''mongo_ecom_customers'', 100),
                 (''mongo_ecom_customers'', 50)]"
    "concat (map rows (inserts s)) = replicate 250 sample_row"
    "sent s = 250"
    and sd: "if insert_ok (always live) 0 \<and> insert_ok (always live) 1
                \<and> insert_ok (always live) 2
             then stored s = 250 else stored s < 250"
    by (elim exE conjE)
  from sd have st5: "stored s = 250" by (simp only: ok simp_thms if_True)
  have ex: "\<exists>s. consume_and_load sample_lib (always live) (batch_args 250)
                        = Some (Returned s)
          \<and> map (\<lambda>c. (target c, length (rows c))) (inserts s)
              = [(''mongo_ecom_customers'', 100), (''mongo_ecom_customers'', 100),
                 (''mongo_ecom_customers'', 50)]
          \<and> concat (map rows (inserts s)) = replicate 250 sample_row
          \<and> sent s = 250 \<and> stored s = 250"
    by (intro exI[of _ s] conjI st st5)
  show ?thesis by (intro conjI r m p live_error sample_live_accept ex)
qed


section \<open>Leaving the loop, and starting up\<close>

lemma initial_inserts: "inserts (initial_state a) = []"
  by (simp add: initial_state_def logger_def)

lemma interrupted_run:
  "\<exists>s. consume_and_load sample_lib interrupted realtime_args
          = Some (Propagated KeyboardInterrupt s)
       \<and> batch_data s = [(''mongo_ecom_customers'', [sample_row]),
                          (''mongo_ecom_products'', []), (''mongo_ecom_orders'', [])]
       \<and> inserts s = []"
proof -
  let ?a = realtime_args
  have p0: "poll interrupted (polled (initial_state ?a)) = PollMsg live"
    by (simp add: interrupted_def initial_counts)
  have m: "map_of (batch_data (initial_state ?a)) ''mongo_ecom_customers'' = Some []"
    by (rule sample_initial_buffer)
  have nl: "\<not> limit_reached ?a k" for k
    by (simp add: limit_reached_def realtime_args_def)
  have row: \<open>\<lparr>raw_data = str ''{"id": 7}'',
              kafka_timestamp = py_int (clock interrupted (polled (initial_state ?a))),
              kafka_offset = offset live, kafka_partition = partition live\<rparr> = sample_row\<close>
    by (simp add: interrupted_def py_int_def live_def customer_msg_def sample_row_def)
  from loop_iteration_kept[OF p0 live_error sample_live_accept m, of ?a]
  obtain s1 where
    s1: "loop_iteration sample_lib interrupted ?a (initial_state ?a) = Continue s1"
    and p1: "polled s1 = 1"
    and b1: "batch_data s1 = [(''mongo_ecom_customers'', [sample_row]),
                          (''mongo_ecom_products'', []), (''mongo_ecom_orders'', [])]"
    and i1: "inserts s1 = []"
    unfolding row
    by (auto simp: nl batch_size_def initial_batch_data initial_counts initial_inserts)
  let ?s2 = "s1\<lparr>polled := Suc (polled s1)\<rparr>"
  have s2: "loop_iteration sample_lib interrupted ?a s1 = Raise KeyboardInterrupt ?s2"
    by (simp add: loop_iteration_def Let_def interrupted_def p1)
  have "iterate sample_lib interrupted ?a (Suc (Suc 0)) (initial_state ?a)
          = Raise KeyboardInterrupt ?s2"
    by (simp add: s1 s2)
  from poll_loop_iterate(3)[OF this]
  have "consume_and_load sample_lib interrupted ?a = Some (Propagated KeyboardInterrupt ?s2)"
    by (simp add: consume_and_load_def)
  with b1 i1 show ?thesis by (intro exI[of _ ?s2]) simp
qed

text \<open>
  Claim C4, at an input where the code departs from it. Real-time mode; the broker
  delivers one regular message, then the operator interrupts the next poll. The
  \<open>KeyboardInterrupt\<close> passes both \<open>except Exception\<close> handlers and leaves
  \<open>consume_and_load\<close> before the final flush: the row is still in its buffer and the sink
  has received no insert call. \<open>main\<close> catches the interrupt, shows the statistics and
  returns.
\<close>

theorem interrupt_skips_final_flush:
  "\<exists>s. consume_and_load sample_lib interrupted realtime_args
          = Some (Propagated KeyboardInterrupt s)
       \<and> batch_data s = [(''mongo_ecom_customers'', [sample_row]),
                          (''mongo_ecom_products'', []), (''mongo_ecom_orders'', [])]
       \<and> inserts s = []
       \<and> main sample_lib interrupted (healthy [''kafka_to_clickhouse_bridge.py''])
           = Some \<lparr>status = ExitZero,
                   actions = [TestConnections True, CreateTables [True, True, True],
                              ConsumeAndLoad realtime_args (Propagated KeyboardInterrupt s),
                              ShowStats]\<rparr>"
proof -
  from interrupted_run obtain s where
    c: "consume_and_load sample_lib interrupted realtime_args
          = Some (Propagated KeyboardInterrupt s)"
    and b: "batch_data s = [(''mongo_ecom_customers'', [sample_row]),
                          (''mongo_ecom_products'', []), (''mongo_ecom_orders'', [])]"
    and i: "inserts s = []"
    by blast
  have a: "mode_args RealtimeMode False = realtime_args"
    by (simp add: mode_args_def realtime_args_def)
  have "main sample_lib interrupted (healthy [''kafka_to_clickhouse_bridge.py''])
           = Some \<lparr>status = ExitZero,
                   actions = [TestConnections True, CreateTables [True, True, True],
                              ConsumeAndLoad realtime_args (Propagated KeyboardInterrupt s),
                              ShowStats]\<rparr>"
    by (simp add: main_def healthy_def parse_mode_def test_connections_def create_tables_def
        a c)
  with c b i show ?thesis by blast
qed

text \<open>
  The other way out of the loop: when it ends by \<open>break\<close> (time limit or message limit
  in batch mode), every non-empty buffer reaches the sink.
\<close>

lemma drain_keeps_inserts:
  "c \<in> set (inserts s) \<Longrightarrow> c \<in> set (inserts (drain w bd s))"
  by (induction bd arbitrary: s) (auto simp: insert_batch_def logger_def Let_def)

lemma drain_flushes_every_buffer:
  "(table, data) \<in> set bd \<Longrightarrow> data \<noteq> [] \<Longrightarrow>
     \<exists>c\<in>set (inserts (drain w bd s)). target c = table \<and> rows c = data"
proof (induction bd arbitrary: s)
  case Nil
  then show ?case by simp
next
  case (Cons e bd)
  obtain t d where e: "e = (t, d)" by (cases e)
  show ?case
  proof (cases "(table, data) = (t, d)")
    case True
    let ?c = "\<lparr>target = table, rows = data, succeeded = insert_ok w (length (inserts s))\<rparr>"
    have "?c \<in> set (inserts (insert_batch w table data s))"
      by (simp add: insert_batch_def logger_def Let_def)
    from drain_keeps_inserts[OF this, of w bd] True e Cons.prems(2)
    show ?thesis by (intro bexI[of _ ?c]) auto
  next
    case False
    with Cons.prems e have "(table, data) \<in> set bd" by auto
    from Cons.IH[OF this Cons.prems(2)] e show ?thesis by simp
  qed
qed

lemma break_flushes_every_buffer:
  assumes "iterate lib w a n (initial_state a) = Break t"
    and "(table, data) \<in> set (batch_data t)" and "data \<noteq> []"
  shows "\<exists>s. consume_and_load lib w a = Some (Returned s)
           \<and> (\<exists>c\<in>set (inserts s). target c = table \<and> rows c = data)"
proof -
  from poll_loop_iterate(2)[OF assms(1)]
  have "consume_and_load lib w a
          = Some (Returned (logger INFO (Processed (message_count t))
                    (drain w (batch_data t) t)))"
    by (simp add: consume_and_load_def)
  moreover from drain_flushes_every_buffer[OF assms(2,3), of w t]
  have "\<exists>c\<in>set (inserts (logger INFO (Processed (message_count t))
                    (drain w (batch_data t) t))). target c = table \<and> rows c = data"
    by (simp add: logger_def)
  ultimately show ?thesis by blast
qed


lemma quiet_run:
  "\<exists>s. consume_and_load lib quiet (mode_args BatchMode False) = Some (Returned s)
       \<and> inserts s = [] \<and> polled s = 1"
proof -
  let ?a = "mode_args BatchMode False"
  let ?s = "logger INFO TimeoutReached ((initial_state ?a)\<lparr>polled := 1\<rparr>)"
  have "timed_out quiet ?a 0"
    by (simp add: timed_out_def mode_args_def quiet_def)
  then have "loop_iteration lib quiet ?a (initial_state ?a) = Break ?s"
    by (simp add: loop_iteration_def Let_def initial_counts quiet_def)
  then have "iterate lib quiet ?a (Suc 0) (initial_state ?a) = Break ?s" by simp
  from poll_loop_iterate(2)[OF this]
  have "consume_and_load lib quiet ?a
          = Some (Returned (logger INFO (Processed (message_count ?s))
                    (drain quiet (batch_data ?s) ?s)))"
    by (simp add: consume_and_load_def)
  moreover have "drain quiet (batch_data ?s) ?s = ?s"
    by (simp add: logger_def initial_batch_data)
  ultimately show ?thesis
    by (intro exI[of _ "logger INFO (Processed (message_count ?s)) ?s"])
       (simp add: logger_def initial_inserts)
qed

lemma parse_batch: "parse_mode [''kafka_to_clickhouse_bridge.py'', ''--batch''] = (BatchMode, False)"
  by (simp add: parse_mode_def)

text \<open>
  Claim C8, as the code has it. When the constructor's \<open>get_client\<close> raises, the
  exception leaves \<open>main\<close>: non-zero status, nothing done. When the connection test
  fails (sink or broker unreachable), \<open>main\<close> returns, so the status is 0, and nothing but
  the test has happened: no table created or cleared, no subscription, no message
  consumed. A failing \<open>CREATE TABLE\<close> is not fatal: whatever the three commands answer,
  \<open>main\<close> goes on to \<open>consume_and_load\<close>.
\<close>

theorem failed_connection_test_returns:
  "(\<not> client_ok st \<longrightarrow> main lib w st = Some \<lparr>status = ExitNonZero, actions = []\<rparr>)
   \<and> (client_ok st \<and> \<not> test_connections st \<longrightarrow>
      main lib w st
        = Some \<lparr>status = ExitZero,
                actions = (if fst (parse_mode (argv st)) = HelpMode then []
                           else [TestConnections False])\<rparr>)
   \<and> (client_ok st \<and> test_connections st \<and> fst (parse_mode (argv st)) \<noteq> HelpMode
        \<and> consume_and_load lib w
             (mode_args (fst (parse_mode (argv st))) (snd (parse_mode (argv st)))) = Some r
      \<longrightarrow> (\<exists>res. main lib w st = Some res
             \<and> take 2 (actions res) = [TestConnections True, CreateTables (create_tables st)]
             \<and> ConsumeAndLoad
                  (mode_args (fst (parse_mode (argv st))) (snd (parse_mode (argv st)))) r
                 \<in> set (actions res)))"
proof (intro conjI impI)
  assume "\<not> client_ok st"
  then show "main lib w st = Some \<lparr>status = ExitNonZero, actions = []\<rparr>"
    by (simp add: main_def)
next
  assume "client_ok st \<and> \<not> test_connections st"
  then show "main lib w st
        = Some \<lparr>status = ExitZero,
                actions = (if fst (parse_mode (argv st)) = HelpMode then []
                           else [TestConnections False])\<rparr>"
    by (cases "parse_mode (argv st)") (simp add: main_def)
next
  assume h: "client_ok st \<and> test_connections st \<and> fst (parse_mode (argv st)) \<noteq> HelpMode
        \<and> consume_and_load lib w
             (mode_args (fst (parse_mode (argv st))) (snd (parse_mode (argv st)))) = Some r"
  obtain mode reset_offset where pm: "parse_mode (argv st) = (mode, reset_offset)"
    by (cases "parse_mode (argv st)")
  with h show "\<exists>res. main lib w st = Some res
             \<and> take 2 (actions res) = [TestConnections True, CreateTables (create_tables st)]
             \<and> ConsumeAndLoad
                  (mode_args (fst (parse_mode (argv st))) (snd (parse_mode (argv st)))) r
                 \<in> set (actions res)"
    by (cases r) (auto simp: main_def Let_def)
qed

theorem failed_connection_test_returns_witness:
  "client_ok broker_down \<and> \<not> test_connections broker_down
   \<and> main sample_lib quiet broker_down
       = Some \<lparr>status = ExitZero, actions = [TestConnections False]\<rparr>
   \<and> client_ok creation_fails \<and> test_connections creation_fails
   \<and> create_tables creation_fails = [False, False, False]
   \<and> (\<exists>r res. consume_and_load sample_lib quiet (mode_args BatchMode False) = Some r
         \<and> main sample_lib quiet creation_fails = Some res
         \<and> take 2 (actions res) = [TestConnections True, CreateTables [False, False, False]]
         \<and> ConsumeAndLoad (mode_args BatchMode False) r \<in> set (actions res))"
proof -
  have b: "client_ok broker_down" "\<not> test_connections broker_down"
    "parse_mode (argv broker_down) = (BatchMode, False)"
    by (simp_all add: broker_down_def healthy_def test_connections_def parse_batch)
  have c: "client_ok creation_fails" "test_connections creation_fails"
    "parse_mode (argv creation_fails) = (BatchMode, False)"
    "create_tables creation_fails = [False, False, False]"
    by (simp_all add: creation_fails_def healthy_def test_connections_def parse_batch
        create_tables_def)
  from quiet_run[of sample_lib] obtain s where
    q: "consume_and_load sample_lib quiet (mode_args BatchMode False) = Some (Returned s)"
    by blast
  from failed_connection_test_returns[of broker_down sample_lib quiet] b
  have 1: "main sample_lib quiet broker_down
       = Some \<lparr>status = ExitZero, actions = [TestConnections False]\<rparr>"
    by simp
  from failed_connection_test_returns[of creation_fails sample_lib quiet "Returned s"] c q
  have "\<exists>res. main sample_lib quiet creation_fails = Some res
         \<and> take 2 (actions res) = [TestConnections True, CreateTables [False, False, False]]
         \<and> ConsumeAndLoad (mode_args BatchMode False) (Returned s) \<in> set (actions res)"
    by simp
  with q have 2: "\<exists>r res. consume_and_load sample_lib quiet (mode_args BatchMode False) = Some r
         \<and> main sample_lib quiet creation_fails = Some res
         \<and> take 2 (actions res) = [TestConnections True, CreateTables [False, False, False]]
         \<and> ConsumeAndLoad (mode_args BatchMode False) r \<in> set (actions res)"
    by blast
  show ?thesis by (intro conjI b(1,2) c(1,2,4) 1 2)
qed

text \<open>
  Batch mode with the broker unreachable: the process ends with status 0. Batch mode with
  every \<open>CREATE TABLE\<close> failing: the run subscribes, polls until the time limit, and ends
  with status 0.
\<close>

theorem startup_failures_exit_zero:
  "main sample_lib quiet broker_down
     = Some \<lparr>status = ExitZero, actions = [TestConnections False]\<rparr>
   \<and> (\<exists>r. main sample_lib quiet creation_fails
            = Some \<lparr>status = ExitZero,
                    actions = [TestConnections True, CreateTables [False, False, False],
                               ConsumeAndLoad (mode_args BatchMode False) r, ShowStats]\<rparr>)"
proof -
  have 1: "main sample_lib quiet broker_down
     = Some \<lparr>status = ExitZero, actions = [TestConnections False]\<rparr>"
    by (simp add: main_def broker_down_def healthy_def parse_batch test_connections_def)
  from quiet_run[of sample_lib] obtain s where
    "consume_and_load sample_lib quiet (mode_args BatchMode False) = Some (Returned s)"
    by blast
  then have "main sample_lib quiet creation_fails
            = Some \<lparr>status = ExitZero,
                    actions = [TestConnections True, CreateTables [False, False, False],
                               ConsumeAndLoad (mode_args BatchMode False) (Returned s),
                               ShowStats]\<rparr>"
    by (simp add: main_def creation_fails_def healthy_def parse_batch test_connections_def
        create_tables_def)
  with 1 show ?thesis by blast
qed



section \<open>Every table has a buffer\<close>

text \<open>
  Every state of a run has a buffer for each table of the mapping, so the lookup
  \<open>batch_data[table_name]\<close> never raises.
\<close>

lemma keys_step:
  "map fst (batch_data (flow_state (loop_iteration lib w a s))) = map fst (batch_data s)"
proof -
  let ?s' = "flow_state (loop_iteration lib w a s)"
  from loop_iteration_effect[of lib w a s]
  consider "batch_data ?s' = batch_data s"
    | table row buf where "map_of (batch_data s) table = Some buf"
        "batch_data ?s' = AList.update table (buf @ [row]) (batch_data s)
         \<or> batch_data ?s' = AList.update table [] (batch_data s)"
    by (auto split: if_splits)
  then show ?thesis
    by cases (auto simp: keys_update)
qed

lemma keys_iterate:
  "map fst (batch_data (flow_state (iterate lib w a n s))) = map fst (batch_data s)"
proof (induction n arbitrary: s)
  case 0
  show ?case by simp
next
  case (Suc n)
  show ?case
  proof (cases "loop_iteration lib w a s")
    case (Continue s')
    with keys_step[of lib w a s] Suc[of s'] show ?thesis by simp
  next
    case (Break s')
    with keys_step[of lib w a s] show ?thesis by simp
  next
    case (Raise e s')
    with keys_step[of lib w a s] show ?thesis by simp
  qed
qed

lemma buffer_in_every_state:
  assumes "map_of topic_table_mapping t = Some table"
  shows "\<exists>buf. map_of (batch_data (flow_state (iterate lib w a n (initial_state a)))) table
                 = Some buf"
proof -
  from assms have "table \<in> set tables"
    by (auto simp: topic_table_mapping_def tables_def split: if_splits)
  moreover have "map fst (batch_data (flow_state (iterate lib w a n (initial_state a)))) = tables"
    by (simp add: keys_iterate initial_keys)
  ultimately have "table \<in> fst ` set (batch_data (flow_state (iterate lib w a n (initial_state a))))"
    by (metis set_map)
  then show ?thesis by (metis map_of_eq_None_iff not_Some_eq)
qed


section \<open>A full buffer is flushed at once\<close>

text \<open>
  The append that fills a buffer hands it to the sink and empties it; any other append
  makes no insert call.
\<close>

lemma flush_at_threshold:
  assumes it: "iterate lib w a n (initial_state a) = Continue s"
    and pm: "poll w (polled s) = PollMsg msg" and e: "error msg = None"
    and acc: "accept lib msg = Accept table payload"
    and mo: "map_of (batch_data s) table = Some buf"
  shows "if length buf + 1 < batch_size
         then map_of (batch_data (flow_state (iterate lib w a (Suc n) (initial_state a)))) table
                = Some (buf @ [\<lparr>raw_data = payload,
                                  kafka_timestamp = py_int (clock w (polled s)),
                                  kafka_offset = offset msg,
                                  kafka_partition = partition msg\<rparr>])
              \<and> inserts (flow_state (iterate lib w a (Suc n) (initial_state a))) = inserts s
         else length (buf @ [\<lparr>raw_data = payload,
                                kafka_timestamp = py_int (clock w (polled s)),
                                kafka_offset = offset msg,
                                kafka_partition = partition msg\<rparr>]) = batch_size
              \<and> map_of (batch_data (flow_state (iterate lib w a (Suc n) (initial_state a))))
                    table = Some []
              \<and> inserts (flow_state (iterate lib w a (Suc n) (initial_state a)))
                  = inserts s @
                      [\<lparr>target = table,
                        rows = buf @ [\<lparr>raw_data = payload,
                                        kafka_timestamp = py_int (clock w (polled s)),
                                        kafka_offset = offset msg,
                                        kafka_partition = partition msg\<rparr>],
                        succeeded = insert_ok w (length (inserts s))\<rparr>]"
proof -
  let ?row = "\<lparr>raw_data = payload, kafka_timestamp = py_int (clock w (polled s)),
               kafka_offset = offset msg, kafka_partition = partition msg\<rparr>"
  have step: "iterate lib w a (Suc n) (initial_state a) = loop_iteration lib w a s"
    by (simp only: iterate_Suc_end it flow.case)
  from loop_iteration_kept[OF pm e acc mo, of a] obtain s' where
    fl: "loop_iteration lib w a s
           = (if limit_reached a (message_count s + 1) then Break s' else Continue s')"
    and b: "if length buf + 1 < batch_size
            then batch_data s' = AList.update table (buf @ [?row]) (batch_data s)
                 \<and> inserts s' = inserts s
            else batch_data s' = AList.update table [] (batch_data s)
                 \<and> inserts s' = inserts s @
                     [\<lparr>target = table, rows = buf @ [?row],
                       succeeded = insert_ok w (length (inserts s))\<rparr>]"
    by blast
  from fl have fs: "flow_state (iterate lib w a (Suc n) (initial_state a)) = s'"
    unfolding step by (simp split: if_splits)
  from mo have "(table, buf) \<in> set (batch_data s)" by (rule map_of_SomeD)
  moreover from threshold_invariant[of lib w a n] it
  have "\<forall>e\<in>set (batch_data s). length (snd e) < batch_size" by simp
  ultimately have lb: "length buf < batch_size" by auto
  show ?thesis
  proof (cases "length buf + 1 < batch_size")
    case True
    with b show ?thesis unfolding fs by (simp add: update_conv')
  next
    case False
    with lb have "length (buf @ [?row]) = batch_size" by simp
    with False b show ?thesis unfolding fs by (simp add: update_conv')
  qed
qed

lemma always_run_99:
  "\<exists>s buf. iterate sample_lib (always live) realtime_args 99 (initial_state realtime_args)
              = Continue s
         \<and> polled s = 99
         \<and> map_of (batch_data s) ''mongo_ecom_customers'' = Some buf
         \<and> length buf = 99 \<and> inserts s = []"
proof -
  have msgs: \<open>\<forall>i<99. poll (always live) i = PollMsg ((\<lambda>i. live) i)
               \<and> error ((\<lambda>i. live) i) = None
               \<and> accept sample_lib ((\<lambda>i. live) i)
                   = Accept ''mongo_ecom_customers'' ((\<lambda>i. str ''{"id": 7}'') i)\<close>
    by (simp add: always_poll live_error sample_live_accept)
  have lim: "\<forall>c. 0 < c \<and> c \<le> int 99 \<longrightarrow> \<not> limit_reached realtime_args c"
    by (simp add: limit_reached_def realtime_args_def)
  have tbl: "''mongo_ecom_customers'' \<in> set tables" by (simp add: tables_def)
  from single_table_run[OF msgs lim tbl] obtain s buf where
    1: "iterate sample_lib (always live) realtime_args 99 (initial_state realtime_args)
          = Continue s"
    and 2: "polled s = 99"
    and 3: "batch_data s = AList.update ''mongo_ecom_customers'' buf
                             (batch_data (initial_state realtime_args))"
    and 4: "length buf = 99"
    and 5: "map (\<lambda>c. (target c, length (rows c))) (inserts s) = []"
    by auto
  from 3 have "map_of (batch_data s) ''mongo_ecom_customers'' = Some buf"
    by (simp add: map_of_update_initial[OF tbl])
  with 1 2 4 5 show ?thesis by auto
qed

text \<open>
  Claim C2. After any number of iterations from the initial state, whatever the broker
  delivers and whatever the sink answers: every per-table buffer is shorter than the
  batch size at the start of the next poll; every insert call made by the loop carried
  exactly \<open>batch_size\<close> rows; no insert call of a finished run, the final flush included,
  carried more than \<open>batch_size\<close> rows or none. And the flush happens the instant the
  threshold is reached: when the next poll delivers an accepted message for a table
  whose buffer is \<open>buf\<close>, then either the buffer stays below the threshold and the sink is
  not called, or \<open>buf\<close> with the new row has exactly \<open>batch_size\<close> rows, the sink receives
  them in one new insert call, and the table's buffer is empty before the following poll.
\<close>

theorem batch_below_threshold:
  "(\<forall>e\<in>set (batch_data (flow_state (iterate lib w a n (initial_state a)))).
      length (snd e) < batch_size)
   \<and> (\<forall>c\<in>set (inserts (flow_state (iterate lib w a n (initial_state a)))).
        length (rows c) = batch_size)
   \<and> (\<forall>r. consume_and_load lib w a = Some r \<longrightarrow>
        (\<forall>c\<in>set (inserts (call_state r)).
           0 < length (rows c) \<and> length (rows c) \<le> batch_size))
   \<and> (\<forall>s msg table payload buf.
        iterate lib w a n (initial_state a) = Continue s
        \<and> poll w (polled s) = PollMsg msg \<and> error msg = None
        \<and> accept lib msg = Accept table payload
        \<and> map_of (batch_data s) table = Some buf
        \<longrightarrow>
        (if length buf + 1 < batch_size
         then map_of (batch_data (flow_state (iterate lib w a (Suc n) (initial_state a)))) table
                = Some (buf @ [\<lparr>raw_data = payload,
                                  kafka_timestamp = py_int (clock w (polled s)),
                                  kafka_offset = offset msg,
                                  kafka_partition = partition msg\<rparr>])
              \<and> inserts (flow_state (iterate lib w a (Suc n) (initial_state a))) = inserts s
         else length (buf @ [\<lparr>raw_data = payload,
                                kafka_timestamp = py_int (clock w (polled s)),
                                kafka_offset = offset msg,
                                kafka_partition = partition msg\<rparr>]) = batch_size
              \<and> map_of (batch_data (flow_state (iterate lib w a (Suc n) (initial_state a))))
                    table = Some []
              \<and> inserts (flow_state (iterate lib w a (Suc n) (initial_state a)))
                  = inserts s @
                      [\<lparr>target = table,
                        rows = buf @ [\<lparr>raw_data = payload,
                                        kafka_timestamp = py_int (clock w (polled s)),
                                        kafka_offset = offset msg,
                                        kafka_partition = partition msg\<rparr>],
                        succeeded = insert_ok w (length (inserts s))\<rparr>]))"
proof (intro conjI allI impI)
  show "\<forall>e\<in>set (batch_data (flow_state (iterate lib w a n (initial_state a)))).
      length (snd e) < batch_size"
    using threshold_invariant[of lib w a n] by blast
  show "\<forall>c\<in>set (inserts (flow_state (iterate lib w a n (initial_state a)))).
        length (rows c) = batch_size"
    using threshold_invariant[of lib w a n] by blast
next
  fix r
  assume "consume_and_load lib w a = Some r"
  then show "\<forall>c\<in>set (inserts (call_state r)).
           0 < length (rows c) \<and> length (rows c) \<le> batch_size"
    using threshold_invariant[of lib w a n] by blast
next
  fix s msg table payload buf
  assume h: "iterate lib w a n (initial_state a) = Continue s
        \<and> poll w (polled s) = PollMsg msg \<and> error msg = None
        \<and> accept lib msg = Accept table payload
        \<and> map_of (batch_data s) table = Some buf"
  then have 1: "iterate lib w a n (initial_state a) = Continue s"
    and 2: "poll w (polled s) = PollMsg msg" and 3: "error msg = None"
    and 4: "accept lib msg = Accept table payload"
    and 5: "map_of (batch_data s) table = Some buf"
    by simp_all
  show "if length buf + 1 < batch_size
         then map_of (batch_data (flow_state (iterate lib w a (Suc n) (initial_state a)))) table
                = Some (buf @ [\<lparr>raw_data = payload,
                                  kafka_timestamp = py_int (clock w (polled s)),
                                  kafka_offset = offset msg,
                                  kafka_partition = partition msg\<rparr>])
              \<and> inserts (flow_state (iterate lib w a (Suc n) (initial_state a))) = inserts s
         else length (buf @ [\<lparr>raw_data = payload,
                                kafka_timestamp = py_int (clock w (polled s)),
                                kafka_offset = offset msg,
                                kafka_partition = partition msg\<rparr>]) = batch_size
              \<and> map_of (batch_data (flow_state (iterate lib w a (Suc n) (initial_state a))))
                    table = Some []
              \<and> inserts (flow_state (iterate lib w a (Suc n) (initial_state a)))
                  = inserts s @
                      [\<lparr>target = table,
                        rows = buf @ [\<lparr>raw_data = payload,
                                        kafka_timestamp = py_int (clock w (polled s)),
                                        kafka_offset = offset msg,
                                        kafka_partition = partition msg\<rparr>],
                        succeeded = insert_ok w (length (inserts s))\<rparr>]"
    by (rule flush_at_threshold[OF 1 2 3 4 5])
qed

theorem batch_below_threshold_witness:
  "\<exists>s buf. iterate sample_lib (always live) realtime_args 99 (initial_state realtime_args)
              = Continue s
         \<and> map_of (batch_data s) ''mongo_ecom_customers'' = Some buf
         \<and> length buf = 99 \<and> inserts s = []
         \<and> length (buf @ [sample_row]) = batch_size
         \<and> map_of (batch_data (flow_state (iterate sample_lib (always live) realtime_args
                                             (Suc 99) (initial_state realtime_args))))
              ''mongo_ecom_customers'' = Some []
         \<and> inserts (flow_state (iterate sample_lib (always live) realtime_args
                                   (Suc 99) (initial_state realtime_args)))
             = [\<lparr>target = ''mongo_ecom_customers'', rows = buf @ [sample_row],
                 succeeded = True\<rparr>]"
proof -
  from always_run_99 obtain s buf where
    1: "iterate sample_lib (always live) realtime_args 99 (initial_state realtime_args)
          = Continue s"
    and 2: "map_of (batch_data s) ''mongo_ecom_customers'' = Some buf"
    and 3: "length buf = 99" and 4: "inserts s = []"
    by blast
  have nf: "\<not> length buf + 1 < batch_size" using 3 by (simp add: batch_size_def)
  have ok: "insert_ok (always live) 0" by (simp add: always_def)
  from batch_below_threshold[of sample_lib "always live" realtime_args 99]
  have \<open>iterate sample_lib (always live) realtime_args 99 (initial_state realtime_args)
          = Continue s
        \<and> poll (always live) (polled s) = PollMsg live \<and> error live = None
        \<and> accept sample_lib live = Accept ''mongo_ecom_customers'' (str ''{"id": 7}'')
        \<and> map_of (batch_data s) ''mongo_ecom_customers'' = Some buf
        \<longrightarrow>
        (if length buf + 1 < batch_size
         then map_of (batch_data (flow_state (iterate sample_lib (always live) realtime_args
                                                (Suc 99) (initial_state realtime_args))))
                ''mongo_ecom_customers''
                = Some (buf @ [\<lparr>raw_data = str ''{"id": 7}'',
                                  kafka_timestamp = py_int (clock (always live) (polled s)),
                                  kafka_offset = offset live,
                                  kafka_partition = partition live\<rparr>])
              \<and> inserts (flow_state (iterate sample_lib (always live) realtime_args
                                        (Suc 99) (initial_state realtime_args))) = inserts s
         else length (buf @ [\<lparr>raw_data = str ''{"id": 7}'',
                                kafka_timestamp = py_int (clock (always live) (polled s)),
                                kafka_offset = offset live,
                                kafka_partition = partition live\<rparr>]) = batch_size
              \<and> map_of (batch_data (flow_state (iterate sample_lib (always live) realtime_args
                                                  (Suc 99) (initial_state realtime_args))))
                    ''mongo_ecom_customers'' = Some []
              \<and> inserts (flow_state (iterate sample_lib (always live) realtime_args
                                        (Suc 99) (initial_state realtime_args)))
                  = inserts s @
                      [\<lparr>target = ''mongo_ecom_customers'',
                        rows = buf @ [\<lparr>raw_data = str ''{"id": 7}'',
                                        kafka_timestamp
                                          = py_int (clock (always live) (polled s)),
                                        kafka_offset = offset live,
                                        kafka_partition = partition live\<rparr>],
                        succeeded = insert_ok (always live) (length (inserts s))\<rparr>])\<close>
    by blast
  with 1 2 always_poll[of live "polled s"] live_error sample_live_accept nf
  have 5: "length (buf @ [sample_row]) = batch_size"
    and 6: "map_of (batch_data (flow_state (iterate sample_lib (always live) realtime_args
                                             (Suc 99) (initial_state realtime_args))))
              ''mongo_ecom_customers'' = Some []"
    and 7: "inserts (flow_state (iterate sample_lib (always live) realtime_args
                                   (Suc 99) (initial_state realtime_args)))
             = [\<lparr>target = ''mongo_ecom_customers'', rows = buf @ [sample_row],
                 succeeded = True\<rparr>]"
    by (simp_all add: sample_row_eq 4 ok del: iterate.simps)
  show ?thesis
    by (intro exI[of _ s] exI[of _ buf] conjI 1 2 3 4 5 6 7)
qed


section \<open>The 250 messages in the other modes\<close>

text \<open>
  Batch mode ended by the time limit: after the 250 messages the polls are empty, and the
  first empty poll past the time limit ends the loop. The sink receives the same three
  insert calls as with the message limit.
\<close>

lemma idle_polls:
  assumes "iterate lib w a n s0 = Continue s" and "polled s = n"
    and "\<forall>i. n \<le> i \<and> i < n + d \<longrightarrow> poll w i = PollNone \<and> \<not> timed_out w a i"
  shows "iterate lib w a (n + d) s0 = Continue (s\<lparr>polled := n + d\<rparr>)"
  using assms(3)
proof (induction d)
  case 0
  show ?case using assms(1,2) by simp
next
  case (Suc d)
  then have ih: "iterate lib w a (n + d) s0 = Continue (s\<lparr>polled := n + d\<rparr>)" by simp
  from Suc.prems have "poll w (n + d) = PollNone" "\<not> timed_out w a (n + d)" by simp_all
  then have "loop_iteration lib w a (s\<lparr>polled := n + d\<rparr>)
               = Continue (s\<lparr>polled := Suc (n + d)\<rparr>)"
    by (simp add: loop_iteration_def Let_def)
  then have "iterate lib w a (Suc (n + d)) s0 = Continue (s\<lparr>polled := Suc (n + d)\<rparr>)"
    by (simp only: iterate_Suc_end ih flow.case)
  then show ?case by simp
qed

lemma stored_of_three:
  assumes "map (\<lambda>c. (target c, length (rows c))) xs = [(t, 100), (t, 100), (t, 50)]"
    and "map succeeded xs = [o0, o1, o2]"
  shows "sum_list (map (\<lambda>c. length (rows c)) xs) = 250"
    and "if o0 \<and> o1 \<and> o2
         then sum_list (map (\<lambda>c. length (rows c)) (filter succeeded xs)) = 250
         else sum_list (map (\<lambda>c. length (rows c)) (filter succeeded xs)) < 250"
proof -
  have "length (map (\<lambda>c. (target c, length (rows c))) xs) = 3"
    by (simp only: assms(1)) simp
  then have "length xs = 3" by simp
  then obtain c0 c1 c2 where cs: "xs = [c0, c1, c2]"
    by (metis (no_types) length_0_conv length_Suc_conv numeral_3_eq_3)
  from assms cs have
    "length (rows c0) = 100" "length (rows c1) = 100" "length (rows c2) = 50"
    "succeeded c0 = o0" "succeeded c1 = o1" "succeeded c2 = o2"
    by simp_all
  then show "sum_list (map (\<lambda>c. length (rows c)) xs) = 250"
    and "if o0 \<and> o1 \<and> o2
         then sum_list (map (\<lambda>c. length (rows c)) (filter succeeded xs)) = 250
         else sum_list (map (\<lambda>c. length (rows c)) (filter succeeded xs)) < 250"
    unfolding cs by auto
qed

lemma scenario_250_time_limit:
  fixes m :: "nat \<Rightarrow> message" and v :: "nat \<Rightarrow> pystr" and w :: world
  defines "R \<equiv> \<lambda>i. \<lparr>raw_data = v i, kafka_timestamp = py_int (clock w i),
                       kafka_offset = offset (m i), kafka_partition = partition (m i)\<rparr>"
  assumes lim: "\<forall>c. 0 < c \<and> c \<le> 250 \<longrightarrow> \<not> limit_reached a c"
    and msgs: "\<forall>i<250. poll w i = PollMsg (m i) \<and> error (m i) = None
                     \<and> accept lib (m i) = Accept table (v i)"
    and idle: "\<forall>i. 250 \<le> i \<and> i < 250 + d \<longrightarrow> poll w i = PollNone \<and> \<not> timed_out w a i"
    and last: "poll w (250 + d) = PollNone" "timed_out w a (250 + d)"
  shows "\<exists>t s. iterate lib w a (Suc (250 + d)) (initial_state a) = Break t
           \<and> map (\<lambda>c. (target c, length (rows c))) (inserts t) = [(table, 100), (table, 100)]
           \<and> consume_and_load lib w a = Some (Returned s)
           \<and> map (\<lambda>c. (target c, length (rows c))) (inserts s)
               = [(table, 100), (table, 100), (table, 50)]
           \<and> take 2 (inserts s) = inserts t
           \<and> concat (map rows (inserts s)) = map R [0..<250]
           \<and> map succeeded (inserts s) = [insert_ok w 0, insert_ok w 1, insert_ok w 2]
           \<and> sent s = 250
           \<and> (if insert_ok w 0 \<and> insert_ok w 1 \<and> insert_ok w 2 then stored s = 250
               else stored s < 250)"
proof -
  from msgs have acc0: "accept lib (m 0) = Accept table (v 0)" by simp
  then have tbl: "table \<in> set tables" by (rule accept_table)
  have lim': "\<forall>c. 0 < c \<and> c \<le> int 250 \<longrightarrow> \<not> limit_reached a c" using lim by simp
  from single_table_run[OF msgs lim' tbl] obtain s buf where
    it: "iterate lib w a 250 (initial_state a) = Continue s" and p: "polled s = 250"
    and b: "batch_data s = AList.update table buf (batch_data (initial_state a))"
    and l: "length buf = 50"
    and r: "concat (map rows (inserts s)) @ buf = map R [0..<250]"
    and t: "map (\<lambda>c. (target c, length (rows c))) (inserts s) = [(table, 100), (table, 100)]"
    and o: "map succeeded (inserts s) = [insert_ok w 0, insert_ok w 1]"
    unfolding R_def by (auto simp: numeral_2_eq_2 upt_rec[of 0] upt_rec[of "Suc 0"])
  let ?s1 = "s\<lparr>polled := 250 + d\<rparr>"
  have it1: "iterate lib w a (250 + d) (initial_state a) = Continue ?s1"
    by (rule idle_polls[OF it p idle])
  define t where "t = logger INFO TimeoutReached (?s1\<lparr>polled := Suc (250 + d)\<rparr>)"
  have "loop_iteration lib w a ?s1 = Break t"
    using last by (simp add: loop_iteration_def Let_def t_def)
  then have br: "iterate lib w a (Suc (250 + d)) (initial_state a) = Break t"
    by (simp only: iterate_Suc_end it1 flow.case)
  let ?f = "logger INFO (Processed (message_count t)) (drain w (batch_data t) t)"
  have len2: "length (inserts s) = 2" using arg_cong[OF t, of length] by simp
  have bt: "batch_data t = AList.update table buf (batch_data (initial_state a))"
    by (simp add: t_def logger_def b)
  have it': "inserts t = inserts s" by (simp add: t_def logger_def)
  have ne: "buf \<noteq> []" using l by auto
  have dr: "drain w (batch_data t) t = insert_batch w table buf t"
    unfolding bt by (rule drain_single[OF tbl ne])
  have fin: "inserts ?f = inserts s @ [\<lparr>target = table, rows = buf,
                                       succeeded = insert_ok w 2\<rparr>]"
    by (simp add: dr insert_batch_def logger_def Let_def len2 it')
  from poll_loop_iterate(2)[OF br]
  have cl: "consume_and_load lib w a = Some (Returned ?f)"
    by (simp add: consume_and_load_def)
  have 1: "map (\<lambda>c. (target c, length (rows c))) (inserts ?f)
               = [(table, 100), (table, 100), (table, 50)]"
    by (simp only: fin map_append t) (simp add: l)
  have 2: "take 2 (inserts ?f) = inserts t"
    by (simp only: fin it') (simp add: len2)
  have 3: "concat (map rows (inserts ?f)) = map R [0..<250]"
    by (simp only: fin) (simp add: r[symmetric])
  have 4: "map succeeded (inserts ?f) = [insert_ok w 0, insert_ok w 1, insert_ok w 2]"
    by (simp only: fin map_append o) simp
  have 5: "sent ?f = 250" unfolding sent_def by (rule stored_of_three(1)[OF 1 4])
  have 6: "if insert_ok w 0 \<and> insert_ok w 1 \<and> insert_ok w 2 then stored ?f = 250
               else stored ?f < 250"
    unfolding stored_def by (rule stored_of_three(2)[OF 1 4])
  have t': "map (\<lambda>c. (target c, length (rows c))) (inserts t) = [(table, 100), (table, 100)]"
    using t it' by simp
  show ?thesis
    by (intro exI[of _ t] exI[of _ ?f] conjI br t' cl 1 2 3 4 5 6)
qed


text \<open>
  The batch mode of \<open>main\<close> (limit 3500, 60 seconds) on 250 regular messages followed by
  empty polls: the time limit ends the loop at the first empty poll.
\<close>

lemma batch_mode_250:
  "\<exists>s. consume_and_load sample_lib (live_then_silence 250) (mode_args BatchMode False)
          = Some (Returned s)
       \<and> map (\<lambda>c. (target c, length (rows c))) (inserts s)
           = [(''mongo_ecom_customers'', 100), (''mongo_ecom_customers'', 100),
              (''mongo_ecom_customers'', 50)]
       \<and> sent s = 250 \<and> stored s = 250"
proof -
  let ?w = "live_then_silence 250"
  let ?a = "mode_args BatchMode False"
  have lim: "\<forall>c. 0 < c \<and> c \<le> 250 \<longrightarrow> \<not> limit_reached ?a c"
    by (simp add: limit_reached_def mode_args_def)
  have msgs: \<open>\<forall>i<250. poll ?w i = PollMsg ((\<lambda>i. live) i) \<and> error ((\<lambda>i. live) i) = None
               \<and> accept sample_lib ((\<lambda>i. live) i)
                   = Accept ''mongo_ecom_customers'' ((\<lambda>i. str ''{"id": 7}'') i)\<close>
    by (simp add: live_then_silence_def live_error sample_live_accept)
  have idle: "\<forall>i. 250 \<le> i \<and> i < 250 + 0 \<longrightarrow> poll ?w i = PollNone \<and> \<not> timed_out ?w ?a i"
    by auto
  have last: "poll ?w (250 + 0) = PollNone" "timed_out ?w ?a (250 + 0)"
    by (simp_all add: live_then_silence_def timed_out_def mode_args_def)
  have ok: "insert_ok ?w n" for n by (simp add: live_then_silence_def)
  from scenario_250_time_limit[OF lim msgs idle last] obtain t s where
    "consume_and_load sample_lib ?w ?a = Some (Returned s)"
    "map (\<lambda>c. (target c, length (rows c))) (inserts s)
           = [(''mongo_ecom_customers'', 100), (''mongo_ecom_customers'', 100),
              (''mongo_ecom_customers'', 50)]"
    "sent s = 250"
    and sd: "if insert_ok ?w 0 \<and> insert_ok ?w 1 \<and> insert_ok ?w 2
             then stored s = 250 else stored s < 250"
    by (elim exE conjE)
  moreover from sd have "stored s = 250" by (simp only: ok simp_thms if_True)
  ultimately show ?thesis by (intro exI[of _ s] conjI)
qed

text \<open>
  Claim C6, at an input where the code departs from it. Continuous mode, the mode \<open>main\<close>
  runs by default; the broker delivers 250 regular messages for one table, then the
  operator interrupts the next poll. The sink has received the two insert calls of 100
  rows made inside the loop and nothing else: 200 rows are stored, and the last 50 are
  still in the table's buffer when \<open>consume_and_load\<close> is left, because the interrupt
  passes the final flush. \<open>main\<close> catches the interrupt, shows the statistics and returns.
\<close>

theorem interrupt_after_250_loses_batch:
  "\<exists>s buf. consume_and_load sample_lib (live_then_interrupt 250) realtime_args
              = Some (Propagated KeyboardInterrupt s)
         \<and> map (\<lambda>c. (target c, length (rows c))) (inserts s)
             = [(''mongo_ecom_customers'', 100), (''mongo_ecom_customers'', 100)]
         \<and> sent s = 200 \<and> stored s = 200
         \<and> map_of (batch_data s) ''mongo_ecom_customers'' = Some buf \<and> length buf = 50
         \<and> main sample_lib (live_then_interrupt 250) (healthy [''kafka_to_clickhouse_bridge.py''])
             = Some \<lparr>status = ExitZero,
                     actions = [TestConnections True, CreateTables [True, True, True],
                                ConsumeAndLoad realtime_args (Propagated KeyboardInterrupt s),
                                ShowStats]\<rparr>"
proof -
  let ?w = "live_then_interrupt 250"
  let ?a = realtime_args
  have msgs: \<open>\<forall>i<250. poll ?w i = PollMsg ((\<lambda>i. live) i) \<and> error ((\<lambda>i. live) i) = None
               \<and> accept sample_lib ((\<lambda>i. live) i)
                   = Accept ''mongo_ecom_customers'' ((\<lambda>i. str ''{"id": 7}'') i)\<close>
    by (simp add: live_then_interrupt_def live_error sample_live_accept)
  have lim: "\<forall>c. 0 < c \<and> c \<le> int 250 \<longrightarrow> \<not> limit_reached ?a c"
    by (simp add: limit_reached_def realtime_args_def)
  have tbl: "''mongo_ecom_customers'' \<in> set tables" by (simp add: tables_def)
  have ok: "insert_ok ?w n" for n by (simp add: live_then_interrupt_def)
  from single_table_run[OF msgs lim tbl] obtain s buf where
    it: "iterate sample_lib ?w ?a 250 (initial_state ?a) = Continue s"
    and p: "polled s = 250"
    and b: "batch_data s = AList.update ''mongo_ecom_customers'' buf
                             (batch_data (initial_state ?a))"
    and l: "length buf = 50"
    and t: "map (\<lambda>c. (target c, length (rows c))) (inserts s)
              = [(''mongo_ecom_customers'', 100), (''mongo_ecom_customers'', 100)]"
    and o: "map succeeded (inserts s) = [True, True]"
    by (auto simp: numeral_2_eq_2 upt_rec[of 0] upt_rec[of "Suc 0"] ok)
  define u where "u = s\<lparr>polled := Suc 250\<rparr>"
  have "loop_iteration sample_lib ?w ?a s = Raise KeyboardInterrupt u"
    by (simp add: loop_iteration_def Let_def live_then_interrupt_def p u_def)
  then have "iterate sample_lib ?w ?a (Suc 250) (initial_state ?a) = Raise KeyboardInterrupt u"
    by (simp only: iterate_Suc_end it flow.case)
  from poll_loop_iterate(3)[OF this]
  have cl: "consume_and_load sample_lib ?w ?a = Some (Propagated KeyboardInterrupt u)"
    by (simp add: consume_and_load_def)
  have iu: "inserts u = inserts s" and bu: "batch_data u = batch_data s"
    by (simp_all add: u_def)
  have 1: "map (\<lambda>c. (target c, length (rows c))) (inserts u)
             = [(''mongo_ecom_customers'', 100), (''mongo_ecom_customers'', 100)]"
    using t iu by simp
  have "length (map (\<lambda>c. (target c, length (rows c))) (inserts u)) = 2"
    by (simp only: 1) simp
  then have "length (inserts u) = 2" by simp
  then obtain c0 c1 where cs: "inserts u = [c0, c1]"
    by (metis (no_types) length_0_conv length_Suc_conv numeral_2_eq_2)
  have o': "map succeeded (inserts u) = [True, True]" using o iu by simp
  from 1 o' have "length (rows c0) = 100" "length (rows c1) = 100"
    "succeeded c0" "succeeded c1"
    unfolding cs by simp_all
  then have 2: "sent u = 200" and 3: "stored u = 200"
    by (simp_all add: sent_def stored_def cs)
  have 4: "map_of (batch_data u) ''mongo_ecom_customers'' = Some buf"
    unfolding bu b by (rule map_of_update_initial[OF tbl])
  have a: "mode_args RealtimeMode False = realtime_args"
    by (simp add: mode_args_def realtime_args_def)
  have 5: "main sample_lib ?w (healthy [''kafka_to_clickhouse_bridge.py''])
             = Some \<lparr>status = ExitZero,
                     actions = [TestConnections True, CreateTables [True, True, True],
                                ConsumeAndLoad realtime_args (Propagated KeyboardInterrupt u),
                                ShowStats]\<rparr>"
    by (simp add: main_def healthy_def parse_mode_def test_connections_def create_tables_def
        a cl)
  show ?thesis
    by (intro exI[of _ u] exI[of _ buf] conjI cl 1 2 3 4 l 5)
qed


end
